theory Spec2Isabelle
  imports Complex_Main
begin

section \<open>The icon generator \<open>scripts/genicons.py\<close>\<close>

text \<open>
  The script renders licence badges with a 2D drawing library and writes them as PNG
  files into a directory tree. This theory embeds the script function by function.
  Conventions of the embedding:
  \<^item> Python's \<open>str\<close> is \<open>string\<close>; a one-character string and a character are
    the same thing when a \<open>str\<close> is iterated, so the characters of a code are \<open>char\<close>s.
  \<^item> Python's \<open>float\<close> is a binary64 number, modelled by the \<open>real\<close> it denotes. In
    the color conversion every operation rounds to binary64 as the machine does; in
    the text layout the arithmetic is exact. \<open>math.ceil\<close> and \<open>math.floor\<close> return
    \<open>int\<close>.
  \<^item> An exception is a value of type \<open>exc\<close>; a function that can raise returns
    \<open>exc + 'a\<close>, with \<open>Inl\<close> for the exception.
  \<^item> The drawing context is a record that logs the drawing calls made on it.
  \<^item> Everything the script asks the operating system and the font stack is a field
    of the record \<open>env\<close>; the file tree is an explicit state \<open>fsys\<close>.
\<close>

subsection \<open>Exceptions\<close>

datatype exit_arg = Code_None | Code_Int int | Code_Obj string

datatype exc =
    SystemExit exit_arg
  | KeyboardInterrupt
  | BaseException string
  | Exception string
  | OSError int
  | IndexError
  | ValueError
  | OverflowError
  | LibraryError string

text \<open>
  \<open>BaseException s\<close> stands for the exceptions that are not instances of
  \<open>Exception\<close> other than the two named ones (\<open>GeneratorExit\<close>);
  \<open>LibraryError s\<close> for the instances of \<open>Exception\<close> a library call can raise
  (\<open>cairo.Error\<close>, \<open>MemoryError\<close>, ...). \<open>OSError n\<close> carries its \<open>errno\<close>.
\<close>

fun is_Exception :: "exc \<Rightarrow> bool" where
  "is_Exception (SystemExit c) = False"
| "is_Exception KeyboardInterrupt = False"
| "is_Exception (BaseException s) = False"
| "is_Exception e = True"

definition EEXIST :: int where
  "EEXIST = 17"

subsection \<open>Binary floating point\<close>

text \<open>
  The finite binary64 numbers are the reals \<open>m * 2 ^ e\<close> with an integer \<open>m\<close> of at
  most 53 bits. An arithmetic operation on them returns the exact result rounded to
  the nearest such number, a tie going to the even \<open>m\<close>. \<open>b64_round\<close> is that rounding:
  \<open>binade x\<close> is the exponent \<open>k\<close> with \<open>2 ^ k \<le> x < 2 ^ (k + 1)\<close>, found by halving or
  doubling (the budget of 1100 steps covers every binary64 exponent), and the result
  is the multiple of \<open>2 ^ (k - 52)\<close> nearest to \<open>x\<close>. Numbers too small for 53 bits
  (below \<open>2 ^ - 1022\<close>) or too large for binary64 are outside this model; the script
  produces neither.
\<close>

definition pow2 :: "int \<Rightarrow> real" where
  "pow2 k = (if 0 \<le> k then 2 ^ nat k else 1 / 2 ^ nat (- k))"

definition round_half_even :: "real \<Rightarrow> int" where
  "round_half_even x =
    (let f = \<lfloor>x\<rfloor>; d = x - of_int f
     in if d < 1 / 2 then f else if 1 / 2 < d then f + 1 else if even f then f else f + 1)"

fun binade_up :: "nat \<Rightarrow> real \<Rightarrow> int" where
  "binade_up 0 x = 0"
| "binade_up (Suc fuel) x = (if x < 2 then 0 else 1 + binade_up fuel (x / 2))"

fun binade_down :: "nat \<Rightarrow> real \<Rightarrow> int" where
  "binade_down 0 x = 0"
| "binade_down (Suc fuel) x = (if 1 \<le> x then 0 else binade_down fuel (2 * x) - 1)"

definition binade :: "real \<Rightarrow> int" where
  "binade x = (if 1 \<le> x then binade_up 1100 x else binade_down 1100 x)"

definition b64_round :: "real \<Rightarrow> real" where
  "b64_round x =
    (if x = 0 then 0
     else
       let k = binade \<bar>x\<bar> - 52
       in sgn x * (of_int (round_half_even (\<bar>x\<bar> / pow2 k)) * pow2 k))"

subsection \<open>Constant tables\<close>

definition SUITES :: "(string \<times> (string \<times> string list) list) list" where
  "SUITES =
    [(''l'',
       [(''by'', [''b'']),
        (''by-nc'', [''bn'', ''be'', ''by'']),
        (''by-nd'', [''bd'']),
        (''by-sa'', [''ba'']),
        (''by-nc-nd'', [''bnd'', ''bed'', ''byd'']),
        (''by-nc-sa'', [''bna'', ''bea'', ''bya''])]),
     (''p'', [(''cc-zero'', [''0'']), (''public-domain-mark'', [''p''])])]"

type_synonym dimension = "int \<times> int \<times> int \<times> int"

definition DIMENSIONS :: "dimension list" where
  "DIMENSIONS = [(88, 31, 31, 1), (80, 15, 15, 4), (76, 22, 22, 1)]"

definition BACKGROUNDS :: "string list" where
  "BACKGROUNDS = [''transparent'', ''000000'', ''eeeeee'', ''ffffff'']"

definition STEPS :: "string list" where
  "STEPS = [''00'', ''11'', ''22'', ''33'', ''66'', ''99'', ''ff'']"

definition FOREGROUNDS :: "string list" where
  "FOREGROUNDS = [r @ g @ b. r \<leftarrow> STEPS, g \<leftarrow> STEPS, b \<leftarrow> STEPS]"

text \<open>\<open>1.0 / 255.0\<close>: the quotient of two binary64 numbers, rounded.\<close>

definition HEX_TO_FLOAT :: real where
  "HEX_TO_FLOAT = b64_round (1 / 255)"

subsection \<open>Color utilities\<close>

text \<open>
  \<open>int(digits, 16)\<close> on a string of hexadecimal digits. Python also accepts a sign,
  surrounding white space, a \<open>0x\<close> prefix and single underscores between digits;
  these forms are outside the model, which answers \<open>ValueError\<close> for every string
  that is not a non-empty run of hexadecimal digits.
\<close>

definition hex_digit :: "char \<Rightarrow> nat option" where
  "hex_digit c =
    (let n = (of_char c :: nat) in
     if 48 \<le> n \<and> n \<le> 57 then Some (n - 48)
     else if 97 \<le> n \<and> n \<le> 102 then Some (n - 87)
     else if 65 \<le> n \<and> n \<le> 70 then Some (n - 55)
     else None)"

fun int16_acc :: "int \<Rightarrow> string \<Rightarrow> exc + int" where
  "int16_acc acc [] = Inr acc"
| "int16_acc acc (c # cs) =
    (case hex_digit c of
       None \<Rightarrow> Inl ValueError
     | Some d \<Rightarrow> int16_acc (16 * acc + int d) cs)"

definition int16 :: "string \<Rightarrow> exc + int" where
  "int16 digits = (if digits = [] then Inl ValueError else int16_acc 0 digits)"

text \<open>
  \<open>HEX_TO_FLOAT * int(digits, 16)\<close>: the integer is converted to binary64, which
  rounds it, or raises \<open>OverflowError\<close> when it rounds to \<open>2 ^ 1024\<close> (from
  \<open>2 ^ 1024 - 2 ^ 970\<close> on); then the product of the two binary64 numbers is rounded.
\<close>

definition hex_to_float :: "string \<Rightarrow> exc + real" where
  "hex_to_float digits =
    (case int16 digits of
       Inl e \<Rightarrow> Inl e
     | Inr n \<Rightarrow>
         if 2 ^ 1024 - 2 ^ 970 \<le> n then Inl OverflowError
         else Inr (b64_round (HEX_TO_FLOAT * b64_round (of_int n))))"

text \<open>The slice \<open>s[i:j]\<close> for \<open>0 \<le> i \<le> j\<close>: it never raises, it truncates.\<close>

definition slice :: "string \<Rightarrow> nat \<Rightarrow> nat \<Rightarrow> string" where
  "slice s i j = take (j - i) (drop i s)"

datatype cairo_op =
    Set_source_rgba real real real real
  | Set_source_rgb real real real
  | Rectangle real real real real
  | Fill
  | Select_font_face string
  | Set_font_size int
  | Move_to int int
  | Show_text string
  | Stroke

record ctx =
  surface_width :: int
  surface_height :: int
  font_face :: string
  font_size :: int
  ops :: "cairo_op list"

definition emit :: "cairo_op \<Rightarrow> ctx \<Rightarrow> ctx" where
  "emit opn c = c\<lparr>ops := ops c @ [opn]\<rparr>"

definition set_color :: "ctx \<Rightarrow> string \<Rightarrow> exc + ctx" where
  "set_color c color_string =
    (if color_string = ''transparent'' then Inr (emit (Set_source_rgba 0 0 0 0) c)
     else
       case hex_to_float (slice color_string 0 2) of
         Inl e \<Rightarrow> Inl e
       | Inr r \<Rightarrow>
           (case hex_to_float (slice color_string 2 4) of
              Inl e \<Rightarrow> Inl e
            | Inr g \<Rightarrow>
                (case hex_to_float (slice color_string 4 6) of
                   Inl e \<Rightarrow> Inl e
                 | Inr b \<Rightarrow> Inr (emit (Set_source_rgb r g b) c))))"

text \<open>
  Vocabulary for stating the color property: a hexadecimal digit, and the value of
  the two-digit channel that starts at position \<open>i\<close> of a color string.
\<close>

definition is_hex :: "char \<Rightarrow> bool" where
  "is_hex c = (hex_digit c \<noteq> None)"

definition channel :: "string \<Rightarrow> nat \<Rightarrow> nat" where
  "channel s i = 16 * the (hex_digit (s ! i)) + the (hex_digit (s ! Suc i))"

subsection \<open>The environment\<close>

text \<open>
  \<open>text_extents\<close> of the drawing library returns, for the current font face and
  size and a text, the tuple (x bearing, y bearing, width, height, x advance,
  y advance); the script's own comment reads \<open>x, y, width, height, dx, dy\<close>.
  The script reads the tuple by position only, so the model keeps a tuple and
  the two positions used, 2 and 3.
\<close>

type_synonym extents = "real \<times> real \<times> real \<times> real \<times> real \<times> real"

fun idx2 :: "extents \<Rightarrow> real" where
  "idx2 (x, y, w, h, dx, dy) = w"

fun idx3 :: "extents \<Rightarrow> real" where
  "idx3 (x, y, w, h, dx, dy) = h"

text \<open>
  What the script reads from outside itself:
  \<^item> \<open>font_families\<close>: the names of the installed font families;
  \<^item> \<open>script_dir\<close>: \<open>os.path.dirname(__file__)\<close>;
  \<^item> \<open>realpath p\<close>: \<open>os.path.realpath(os.path.abspath(p))\<close>, which the script
    always applies together;
  \<^item> \<open>text_extents face size ch\<close>: the measured extents of a character;
  \<^item> \<open>makedirs_error p\<close> and \<open>write_error p\<close>: the exception, if any, with which
    the operating system or the library answers the call on \<open>p\<close> (any exception:
    an \<open>OSError\<close>, a library error, an interrupt by the user).
\<close>

record env =
  font_families :: "string list"
  script_dir :: string
  realpath :: "string \<Rightarrow> string"
  text_extents :: "string \<Rightarrow> int \<Rightarrow> char \<Rightarrow> extents"
  makedirs_error :: "string \<Rightarrow> exc option"
  write_error :: "string \<Rightarrow> exc option"

subsection \<open>Text layout\<close>

definition size_chars :: "env \<Rightarrow> ctx \<Rightarrow> string \<Rightarrow> extents list" where
  "size_chars env c chars = map (text_extents env (font_face c) (font_size c)) chars"

fun draw_chars :: "(char \<times> extents) list \<Rightarrow> real \<Rightarrow> int \<Rightarrow> int \<Rightarrow> ctx \<Rightarrow> ctx" where
  "draw_chars [] x y padding c = c"
| "draw_chars ((ch, sz) # rest) x y padding c =
    draw_chars rest (x + (idx2 sz + of_int padding)) y padding
      (emit (Show_text [ch]) (emit (Move_to \<lceil>x\<rceil> y) c))"

definition show_chars ::
  "env \<Rightarrow> ctx \<Rightarrow> string \<Rightarrow> string \<Rightarrow> int \<Rightarrow> int \<Rightarrow> int \<Rightarrow> exc + ctx" where
  "show_chars env c chars foreground padding width height =
    (let sizes = size_chars env c chars;
         total_padding = padding * (int (length chars) - 1);
         total_width = foldl (\<lambda>x y. idx3 y + x) 0 sizes;
         x = 1 / 2 + of_int \<lceil>of_int width / 2 - (total_width + of_int total_padding) / 2\<rceil>
     in case sizes of
          [] \<Rightarrow> Inl IndexError
        | s0 # _ \<Rightarrow>
            (let y = \<lceil>(of_int height :: real) / 2\<rceil> + \<lfloor>idx3 s0 / 2\<rfloor>
             in case set_color c foreground of
                  Inl e \<Rightarrow> Inl e
                | Inr c1 \<Rightarrow> Inr (emit Stroke (draw_chars (zip chars sizes) x y padding c1))))"

subsection \<open>Icon renderer\<close>

text \<open>A fresh context: no font selected yet (the library's default size is 10).\<close>

definition create_context :: "int \<Rightarrow> int \<Rightarrow> ctx" where
  "create_context width height =
    \<lparr>surface_width = width, surface_height = height, font_face = [], font_size = 10,
     ops = []\<rparr>"

definition set_background :: "ctx \<Rightarrow> string \<Rightarrow> int \<Rightarrow> int \<Rightarrow> exc + ctx" where
  "set_background c background width height =
    (case set_color c background of
       Inl e \<Rightarrow> Inl e
     | Inr c1 \<Rightarrow> Inr (emit Fill (emit (Rectangle 0 0 (of_int width) (of_int height)) c1)))"

definition configure_font :: "ctx \<Rightarrow> int \<Rightarrow> ctx" where
  "configure_font c fsize =
    emit (Set_font_size fsize)
      ((emit (Select_font_face ''CC Icons'') c)\<lparr>font_face := ''CC Icons''\<rparr>)
      \<lparr>font_size := fsize\<rparr>"

definition genicon ::
  "env \<Rightarrow> string \<Rightarrow> string \<Rightarrow> int \<Rightarrow> int \<Rightarrow> int \<Rightarrow> int \<Rightarrow> string \<Rightarrow> string \<Rightarrow> exc + ctx"
  where
  "genicon env suite characters fsize padding width height background foreground =
    (case set_background (create_context width height) background width height of
       Inl e \<Rightarrow> Inl e
     | Inr c \<Rightarrow>
         show_chars env (configure_font c fsize) characters foreground padding width height)"

subsection \<open>Path and filename derivation\<close>

text \<open>\<open>os.path.join(a, *p)\<close> of the POSIX flavour, with separator \<open>/\<close>.\<close>

definition join_step :: "string \<Rightarrow> string \<Rightarrow> string" where
  "join_step path b =
    (if (case b of [] \<Rightarrow> False | ch # _ \<Rightarrow> ch = CHR ''/'') then b
     else if path = [] \<or> last path = CHR ''/'' then path @ b
     else path @ ''/'' @ b)"

definition os_path_join :: "string \<Rightarrow> string list \<Rightarrow> string" where
  "os_path_join a p = foldl join_step a p"

text \<open>\<open>needle in haystack\<close> on two \<open>str\<close>: the substring test.\<close>

fun str_contains :: "string \<Rightarrow> string \<Rightarrow> bool" where
  "str_contains needle [] = (needle = [])"
| "str_contains needle (ch # rest) =
    (take (length needle) (ch # rest) = needle \<or> str_contains needle rest)"

text \<open>The decimal text of an integer, as an f-string field renders it.\<close>

fun str_nat :: "nat \<Rightarrow> string" where
  "str_nat n =
    (if n < 10 then [''0123456789'' ! n]
     else str_nat (n div 10) @ [''0123456789'' ! (n mod 10)])"

declare str_nat.simps [simp del]

definition str_int :: "int \<Rightarrow> string" where
  "str_int i = (if i < 0 then ''-'' @ str_nat (nat (- i)) else str_nat (nat i))"

text \<open>The local variable \<open>suffix\<close> of \<open>icon_filename\<close>, as a function of the characters.\<close>

definition filename_suffix :: "string \<Rightarrow> string" where
  "filename_suffix characters =
    (if str_contains ''y'' characters then ''-y''
     else if str_contains ''e'' characters then ''-e''
     else [])"

definition icon_filename :: "dimension \<Rightarrow> string \<Rightarrow> string" where
  "icon_filename dimensions characters =
    (case dimensions of (d0, d1, d2, d3) \<Rightarrow>
       str_int d0 @ ''x'' @ str_int d1 @ filename_suffix characters @ ''.png'')"

definition icon_path :: "string \<Rightarrow> string \<Rightarrow> string \<Rightarrow> string \<Rightarrow> string" where
  "icon_path suite descriptor background foreground =
    (let foreground_path =
           os_path_join (slice foreground 0 2) [slice foreground 2 4, slice foreground 4 6]
     in os_path_join suite [descriptor, background, foreground_path])"

subsection \<open>The file tree\<close>

text \<open>
  The file tree as the script can observe and change it: the regular files with
  their contents (the drawing that was serialized), and the directories.
  \<open>os.path.exists\<close> is true of both.
\<close>

record fsys =
  files :: "string \<rightharpoonup> ctx"
  dirs :: "string set"

definition path_exists :: "fsys \<Rightarrow> string \<Rightarrow> bool" where
  "path_exists fs p = (files fs p \<noteq> None \<or> p \<in> dirs fs)"

text \<open>
  The proper ancestors of a path: its non-empty prefixes that end before a
  separator. \<open>ancestors_from seen rest\<close> reads \<open>rest\<close> with \<open>seen\<close> behind it.
\<close>

fun ancestors_from :: "string \<Rightarrow> string \<Rightarrow> string list" where
  "ancestors_from seen [] = []"
| "ancestors_from seen (ch # rest) =
    (if ch = CHR ''/'' \<and> seen \<noteq> [] then [seen] else []) @ ancestors_from (seen @ [ch]) rest"

definition parent_dirs :: "string \<Rightarrow> string list" where
  "parent_dirs p = ancestors_from [] p"

text \<open>
  \<open>os.makedirs(path)\<close>: an error of the environment is raised as it is; otherwise
  an existing leaf raises \<open>OSError\<close> with \<open>EEXIST\<close>, and a missing one is created
  together with its missing ancestors.
\<close>

definition os_makedirs :: "env \<Rightarrow> fsys \<Rightarrow> string \<Rightarrow> exc option \<times> fsys" where
  "os_makedirs env fs path =
    (case makedirs_error env path of
       Some e \<Rightarrow> (Some e, fs)
     | None \<Rightarrow>
         if path_exists fs path then (Some (OSError EEXIST), fs)
         else (None, fs\<lparr>dirs := dirs fs \<union> set (path # parent_dirs path)\<rparr>))"

text \<open>
  \<open>surface.write_to_png(filepath)\<close>: the file is created, or replaced when it is
  there already, unless the environment answers with an error.
\<close>

definition write_to_png :: "env \<Rightarrow> fsys \<Rightarrow> ctx \<Rightarrow> string \<Rightarrow> exc option \<times> fsys" where
  "write_to_png env fs c filepath =
    (case write_error env filepath of
       Some e \<Rightarrow> (Some e, fs)
     | None \<Rightarrow> (None, fs\<lparr>files := (files fs)(filepath \<mapsto> c)\<rparr>))"

subsection \<open>Enumeration driver\<close>

text \<open>
  One combination of the nested loops of \<open>main\<close>: suite, license descriptor,
  character code, dimensions, background, foreground.
\<close>

type_synonym combo = "string \<times> string \<times> string \<times> dimension \<times> string \<times> string"

definition combos :: "combo list" where
  "combos =
    [(suite, lic, chars, dimensions, background, foreground).
       (suite, licenses) \<leftarrow> SUITES,
       (lic, module_chars) \<leftarrow> licenses,
       chars \<leftarrow> module_chars,
       dimensions \<leftarrow> DIMENSIONS,
       background \<leftarrow> BACKGROUNDS,
       foreground \<leftarrow> FOREGROUNDS]"

text \<open>
  The calls the driver makes to the outside, in order; each is tagged with the
  combination in whose iteration it is made.
\<close>

datatype event =
    Ev_print string
  | Ev_genicon combo
  | Ev_makedirs combo string
  | Ev_write combo string

fun event_combo :: "event \<Rightarrow> combo option" where
  "event_combo (Ev_print s) = None"
| "event_combo (Ev_genicon cmb) = Some cmb"
| "event_combo (Ev_makedirs cmb p) = Some cmb"
| "event_combo (Ev_write cmb p) = Some cmb"

fun combo_fg :: "combo \<Rightarrow> string" where
  "combo_fg (suite, lic, chars, dimensions, background, foreground) = foreground"

fun combo_bg :: "combo \<Rightarrow> string" where
  "combo_bg (suite, lic, chars, dimensions, background, foreground) = background"

text \<open>The variables \<open>path\<close> and \<open>filepath\<close> of the loop body.\<close>

fun combo_path :: "env \<Rightarrow> string \<Rightarrow> combo \<Rightarrow> string" where
  "combo_path env basedir (suite, lic, chars, dimensions, background, foreground) =
    realpath env (os_path_join basedir [icon_path suite lic background foreground])"

fun combo_filepath :: "env \<Rightarrow> string \<Rightarrow> combo \<Rightarrow> string" where
  "combo_filepath env basedir (suite, lic, chars, dimensions, background, foreground) =
    realpath env
      (os_path_join
         (combo_path env basedir (suite, lic, chars, dimensions, background, foreground))
         [icon_filename dimensions chars])"

text \<open>
  The \<open>try\<close> block around \<open>os.makedirs\<close>: an \<open>OSError\<close> whose \<open>errno\<close> is
  \<open>EEXIST\<close> is dropped, any other exception goes on.
\<close>

definition try_makedirs :: "env \<Rightarrow> fsys \<Rightarrow> string \<Rightarrow> exc option \<times> fsys" where
  "try_makedirs env fs path =
    (case os_makedirs env fs path of
       (None, fs1) \<Rightarrow> (None, fs1)
     | (Some e, fs1) \<Rightarrow>
         (case e of
            OSError n \<Rightarrow> if n \<noteq> EEXIST then (Some e, fs1) else (None, fs1)
          | _ \<Rightarrow> (Some e, fs1)))"

text \<open>
  The body of the innermost loop. The result is the exception that left the body,
  if any, the file tree after it, and the calls made.
\<close>

definition loop_body :: "env \<Rightarrow> string \<Rightarrow> fsys \<Rightarrow> combo \<Rightarrow> exc option \<times> fsys \<times> event list"
  where
  "loop_body env basedir fs cmb =
    (case cmb of (suite, lic, chars, dimensions, background, foreground) \<Rightarrow>
       if foreground = background then (None, fs, [])
       else
         let path = combo_path env basedir cmb;
             filepath = combo_filepath env basedir cmb
         in if path_exists fs filepath then (None, fs, [])
            else
              (case dimensions of (width, height, fsize, padding) \<Rightarrow>
                 (case genicon env suite chars fsize padding width height background
                         foreground of
                    Inl e \<Rightarrow> (Some e, fs, [Ev_genicon cmb])
                  | Inr c \<Rightarrow>
                      (case try_makedirs env fs path of
                         (Some e, fs1) \<Rightarrow> (Some e, fs1, [Ev_genicon cmb, Ev_makedirs cmb path])
                       | (None, fs1) \<Rightarrow>
                           (case write_to_png env fs1 c filepath of
                              (r, fs2) \<Rightarrow>
                                (r, fs2,
                                 [Ev_genicon cmb, Ev_makedirs cmb path,
                                  Ev_write cmb filepath]))))))"

text \<open>
  The nested \<open>for\<close> loops over a list of combinations: \<open>continue\<close> goes to the
  next combination, an exception ends the loops.
\<close>

fun run_combos :: "env \<Rightarrow> string \<Rightarrow> fsys \<Rightarrow> combo list \<Rightarrow> exc option \<times> fsys \<times> event list"
  where
  "run_combos env basedir fs [] = (None, fs, [])"
| "run_combos env basedir fs (cmb # rest) =
    (case loop_body env basedir fs cmb of
       (Some e, fs1, evs) \<Rightarrow> (Some e, fs1, evs)
     | (None, fs1, evs) \<Rightarrow>
         (case run_combos env basedir fs1 rest of
            (r, fs2, evs2) \<Rightarrow> (r, fs2, evs @ evs2)))"

definition the_basedir :: "env \<Rightarrow> string" where
  "the_basedir env = realpath env (os_path_join (script_dir env) [''..'', ''www'', ''i''])"

definition main :: "env \<Rightarrow> fsys \<Rightarrow> exc option \<times> fsys \<times> event list" where
  "main env fs =
    (if ''CC Icons'' \<notin> set (font_families env) then
       (Some (Exception ''CC Icons font not installed. See <https://wiki.debian.org/Fonts>.''),
        fs, [])
     else
       let basedir = the_basedir env
       in case run_combos env basedir fs combos of
            (r, fs1, evs) \<Rightarrow> (r, fs1, Ev_print (''# basedir: '' @ basedir) # evs))"

subsection \<open>The script\<close>

text \<open>
  What the process leaves behind: its exit status and what it wrote to the error
  stream, a line of text or the traceback of an exception.
\<close>

datatype err_out = Line string | Traceback exc

record process =
  exit_status :: int
  stderr :: "err_out list"
  final_fs :: fsys
  calls :: "event list"

text \<open>
  \<open>sys.exit(code)\<close> at top level: \<open>None\<close> is status 0, an integer is the status,
  any other object is printed to the error stream and the status is 1.
\<close>

fun sys_exit :: "exit_arg \<Rightarrow> int \<times> err_out list" where
  "sys_exit Code_None = (0, [])"
| "sys_exit (Code_Int n) = (n, [])"
| "sys_exit (Code_Obj s) = (1, [Line s])"

text \<open>
  The \<open>__main__\<close> block. An exception that no clause catches reaches the
  interpreter, which prints its traceback and exits with status 1.
  \<open>traceback.print_exc()\<close> prints the traceback to the error stream and returns
  \<open>None\<close>, which the enclosing \<open>print\<close> then prints as a line.
  \<open>exit_after out code\<close> is: print \<open>out\<close>, then \<open>sys.exit(code)\<close>.
\<close>

definition exit_after :: "err_out list \<Rightarrow> exit_arg \<Rightarrow> int \<times> err_out list" where
  "exit_after out code = (case sys_exit code of (st, out2) \<Rightarrow> (st, out @ out2))"

definition handle_outcome :: "exc option \<Rightarrow> int \<times> err_out list" where
  "handle_outcome r =
    (case r of
       None \<Rightarrow> (0, [])
     | Some e \<Rightarrow>
         (case e of
            SystemExit code \<Rightarrow> sys_exit code
          | KeyboardInterrupt \<Rightarrow>
              exit_after [Line ''INFO (130) Halted via KeyboardInterrupt.''] (Code_Int 130)
          | _ \<Rightarrow>
              if is_Exception e then
                exit_after
                  [Line ''ERROR (1) Unhandled exception:'', Traceback e, Line ''None'']
                  (Code_Int 1)
              else (1, [Traceback e])))"

definition script :: "env \<Rightarrow> fsys \<Rightarrow> process" where
  "script env fs =
    (case main env fs of
       (r, fs1, evs) \<Rightarrow>
         (case handle_outcome r of
            (st, out) \<Rightarrow> \<lparr>exit_status = st, stderr = out, final_fs = fs1, calls = evs\<rparr>))"

subsection \<open>Vocabulary of the path properties\<close>

text \<open>
  Vocabulary for the path properties: a path segment is a non-empty string without
  a separator; the keys of \<open>SUITES\<close> and the descriptor names under them.
\<close>

definition seg :: "string \<Rightarrow> bool" where
  "seg x = (x \<noteq> [] \<and> CHR ''/'' \<notin> set x)"

definition suite_keys :: "string list" where
  "suite_keys = map fst SUITES"

definition descriptor_names :: "string list" where
  "descriptor_names = concat (map (\<lambda>(suite, licenses). map fst licenses) SUITES)"

subsection \<open>A concrete environment and concrete file trees\<close>

text \<open>
  An environment for running the model on examples: the required font is installed,
  the script lies in \<open>/r/scripts\<close>, so that the base directory is \<open>/r/www/i\<close>, no
  path is a symbolic link, every glyph measures 10 wide and 20 high, and no call
  to the operating system fails. \<open>empty_fs\<close> is a file tree without any file or
  directory.
\<close>

definition demo_env :: env where
  "demo_env =
    \<lparr>font_families = [''DejaVu Sans'', ''CC Icons''],
     script_dir = ''/r/scripts'',
     realpath = (\<lambda>p. if p = ''/r/scripts/../www/i'' then ''/r/www/i'' else p),
     text_extents = (\<lambda>face fsize ch. (1, - 20, 10, 20, 12, 0)),
     makedirs_error = (\<lambda>p. None),
     write_error = (\<lambda>p. None)\<rparr>"

definition empty_fs :: fsys where
  "empty_fs = \<lparr>files = Map.empty, dirs = {}\<rparr>"

text \<open>The first combination of the enumeration.\<close>

definition first_combo :: combo where
  "first_combo = (''l'', ''by'', ''b'', (88, 31, 31, 1), ''transparent'', ''000000'')"

text \<open>
  \<open>seeded_fs\<close>: the output file of the first combination is there already (a blank
  surface as its content), in its directory. \<open>dir_only_fs\<close>: the directory of the
  first combination is there, the file is not.
\<close>

definition seeded_fs :: fsys where
  "seeded_fs =
    \<lparr>files = [''/r/www/i/l/by/transparent/00/00/00/88x31.png'' \<mapsto> create_context 88 31],
     dirs = {''/r/www/i/l/by/transparent/00/00/00''}\<rparr>"

definition dir_only_fs :: fsys where
  "dir_only_fs = \<lparr>files = Map.empty, dirs = {''/r/www/i/l/by/transparent/00/00/00''}\<rparr>"

subsection \<open>The layout the specification describes\<close>

text \<open>
  For comparison with \<open>show_chars\<close>, the horizontal layout in the words of the
  specification: the width of the run is the sum of the measured widths of the
  characters (position 2 of the extents) plus the padding between neighbours, and
  the run starts where that width is centered in the canvas, rounded as the script
  rounds.
\<close>

definition spec_run_width :: "extents list \<Rightarrow> int \<Rightarrow> real" where
  "spec_run_width sizes padding =
    sum_list (map idx2 sizes) + of_int (padding * (int (length sizes) - 1))"

definition spec_start_x :: "extents list \<Rightarrow> int \<Rightarrow> int \<Rightarrow> real" where
  "spec_start_x sizes padding width =
    1 / 2 + of_int \<lceil>of_int width / 2 - spec_run_width sizes padding / 2\<rceil>"

section \<open>Properties\<close>

subsection \<open>Binary64 rounding\<close>

lemma binade_up_unfold:
  "binade_up n x = (if n = 0 then 0 else if x < 2 then 0 else 1 + binade_up (n - 1) (x / 2))"
  by (cases n) simp_all

lemma binade_down_unfold:
  "binade_down n x =
     (if n = 0 then 0 else if 1 \<le> x then 0 else binade_down (n - 1) (2 * x) - 1)"
  by (cases n) simp_all

lemmas b64_eval = b64_round_def binade_def binade_up_unfold binade_down_unfold pow2_def
  round_half_even_def Let_def

lemma binade_down_le: "binade_down fuel x \<le> 0"
proof (induction fuel arbitrary: x)
  case 0
  then show ?case by simp
next
  case (Suc fuel)
  from Suc [of "2 * x"] show ?case by simp
qed

lemma binade_below_one:
  assumes "x < 1"
  shows "binade x \<le> - 1"
proof -
  have "binade_down 1100 x = binade_down 1099 (2 * x) - 1"
    using assms by (subst binade_down_unfold) simp
  with binade_down_le [of 1099 "2 * x"] show ?thesis
    using assms by (simp add: binade_def)
qed

lemma binade_up_le: "x < 2 ^ Suc m \<Longrightarrow> binade_up fuel x \<le> int m"
proof (induction fuel arbitrary: x m)
  case 0
  then show ?case by simp
next
  case (Suc fuel)
  show ?case
  proof (cases "x < 2")
    case True
    then show ?thesis by simp
  next
    case False
    with Suc.prems obtain m' where m: "m = Suc m'"
      by (cases m) auto
    from Suc.prems m have "x / 2 < 2 ^ Suc m'" by simp
    from Suc.IH [OF this] False m show ?thesis by simp
  qed
qed

lemma round_half_even_error: "\<bar>of_int (round_half_even y) - y\<bar> \<le> 1 / 2"
  unfolding round_half_even_def Let_def by (auto simp: abs_le_iff; linarith)

lemma round_half_even_nonneg: "0 \<le> y \<Longrightarrow> 0 \<le> round_half_even y"
  unfolding round_half_even_def Let_def by (auto; linarith)

lemma round_half_even_below: "y < of_int N \<Longrightarrow> round_half_even y \<le> N"
  unfolding round_half_even_def Let_def by (auto; linarith)

lemma round_half_even_int: "round_half_even (of_int z) = z"
  by (simp add: round_half_even_def)

lemma pow2_neg: "k \<le> 0 \<Longrightarrow> pow2 k = 1 / 2 ^ nat (- k)"
  by (auto simp: pow2_def)

text \<open>A natural number below \<open>2 ^ 53\<close> is a binary64 value.\<close>

lemma b64_round_nat:
  assumes "n < 2 ^ 53"
  shows "b64_round (real n) = real n"
proof (cases "n = 0")
  case True
  then show ?thesis by (simp add: b64_round_def)
next
  case False
  then have one: "1 \<le> real n" by simp
  have "real n < real (2 ^ 53)"
    using assms of_nat_less_iff by blast
  then have "real n < 2 ^ Suc 52"
    by simp
  from binade_up_le [OF this, of 1100] one have k: "binade (real n) - 52 \<le> 0"
    by (simp add: binade_def)
  define j where "j = nat (- (binade (real n) - 52))"
  have p: "pow2 (binade (real n) - 52) = 1 / 2 ^ j"
    using pow2_neg [OF k] by (simp add: j_def)
  have "real n / pow2 (binade (real n) - 52) = of_int (int n * 2 ^ j)"
    by (simp add: p)
  then have "round_half_even (real n / pow2 (binade (real n) - 52)) = int n * 2 ^ j"
    using round_half_even_int by metis
  then show ?thesis
    using False by (simp add: b64_round_def Let_def p)
qed

text \<open>Rounding a real of the unit interval stays there and moves it by at most \<open>2 ^ - 54\<close>.\<close>

lemma b64_round_unit:
  assumes "0 \<le> x" "x < 1"
  shows "0 \<le> b64_round x \<and> b64_round x \<le> 1 \<and> \<bar>b64_round x - x\<bar> \<le> 1 / 2 ^ 54"
proof (cases "x = 0")
  case True
  then show ?thesis by (simp add: b64_round_def)
next
  case False
  with assms have pos: "0 < x" by simp
  have k: "binade x - 52 \<le> - 53"
    using binade_below_one [OF assms(2)] by simp
  define j where "j = nat (- (binade x - 52))"
  have j: "53 \<le> j" using k by (simp add: j_def)
  have p: "pow2 (binade x - 52) = 1 / 2 ^ j"
    using pow2_neg [of "binade x - 52"] k by (simp add: j_def)
  define r where "r = round_half_even (x * 2 ^ j)"
  have v: "b64_round x = of_int r / 2 ^ j"
    using pos by (simp add: b64_round_def Let_def p r_def)
  have r0: "0 \<le> r"
    unfolding r_def using pos by (intro round_half_even_nonneg) simp
  have "x * 2 ^ j < of_int (2 ^ j)"
    using assms(2) by simp
  then have r1: "r \<le> 2 ^ j"
    unfolding r_def by (rule round_half_even_below)
  have re: "\<bar>of_int r - x * 2 ^ j\<bar> \<le> 1 / 2"
    unfolding r_def by (rule round_half_even_error)
  have lo: "0 \<le> b64_round x"
    using r0 by (simp add: v)
  have "real_of_int r \<le> 2 ^ j"
    using r1 by (metis of_int_le_iff of_int_numeral of_int_power)
  then have hi: "b64_round x \<le> 1"
    by (simp add: v divide_le_eq)
  have "\<bar>b64_round x - x\<bar> = \<bar>of_int r - x * 2 ^ j\<bar> / 2 ^ j"
    by (simp add: v field_simps abs_divide)
  also have "\<dots> \<le> (1 / 2) / 2 ^ j"
    using divide_right_mono [OF re, of "2 ^ j"] by simp
  also have "\<dots> \<le> (1 / 2) / 2 ^ 53"
  proof -
    have "(2::real) ^ 53 \<le> 2 ^ j"
      using j by (intro power_increasing) simp_all
    then show ?thesis
      by (rule divide_left_mono) simp_all
  qed
  finally have "\<bar>b64_round x - x\<bar> \<le> 1 / 2 ^ 54" by simp
  with lo hi show ?thesis by blast
qed

lemma HEX_TO_FLOAT_value: "HEX_TO_FLOAT = 282578800148737 / 72057594037927936"
  unfolding HEX_TO_FLOAT_def by (simp add: b64_eval)

text \<open>
  The intensity of a channel value: between 0 and 1, and within \<open>2 ^ - 53\<close> of the
  value divided by 255.
\<close>

lemma channel_intensity:
  assumes "n \<le> 255"
  shows "0 \<le> b64_round (HEX_TO_FLOAT * real n) \<and> b64_round (HEX_TO_FLOAT * real n) \<le> 1
    \<and> \<bar>b64_round (HEX_TO_FLOAT * real n) - real n / 255\<bar> \<le> 1 / 2 ^ 53"
proof -
  let ?x = "HEX_TO_FLOAT * real n"
  have n: "real n \<le> 255" using assms by simp
  have x0: "0 \<le> ?x" by (simp add: HEX_TO_FLOAT_value)
  have x1: "?x < 1" using n by (simp add: HEX_TO_FLOAT_value)
  have d: "\<bar>?x - real n / 255\<bar> \<le> 1 / 2 ^ 56"
    using n by (simp add: HEX_TO_FLOAT_value abs_le_iff)
  note b = b64_round_unit [OF x0 x1]
  have "\<bar>b64_round ?x - real n / 255\<bar> \<le> \<bar>b64_round ?x - ?x\<bar> + \<bar>?x - real n / 255\<bar>"
    by simp
  also have "\<dots> \<le> 1 / 2 ^ 54 + 1 / 2 ^ 56"
    using b d by linarith
  also have "\<dots> \<le> 1 / 2 ^ 53" by simp
  finally show ?thesis using b by blast
qed

subsection \<open>Color conversion\<close>

lemma hex_digit_less: "hex_digit c = Some d \<Longrightarrow> d < 16"
  by (auto simp: hex_digit_def Let_def split: if_splits)

lemma int16_pair:
  assumes "hex_digit a = Some x" "hex_digit b = Some y"
  shows "int16 [a, b] = Inr (int (16 * x + y))"
  using assms by (simp add: int16_def)

lemma slices_of_six:
  assumes "length s = 6"
  shows "slice s 0 2 = [s ! 0, s ! 1]" "slice s 2 4 = [s ! 2, s ! 3]"
    "slice s 4 6 = [s ! 4, s ! 5]"
proof -
  from assms obtain a b c d e f where "s = [a, b, c, d, e, f]"
    by (auto simp: length_Suc_conv eval_nat_numeral)
  then show "slice s 0 2 = [s ! 0, s ! 1]" "slice s 2 4 = [s ! 2, s ! 3]"
    "slice s 4 6 = [s ! 4, s ! 5]"
    by (simp_all add: slice_def)
qed

lemma hex_to_float_pair:
  assumes "is_hex a" "is_hex b"
  shows "hex_to_float [a, b] =
    Inr (b64_round (HEX_TO_FLOAT * real (16 * the (hex_digit a) + the (hex_digit b))))"
proof -
  from assms obtain x y where xy: "hex_digit a = Some x" "hex_digit b = Some y"
    by (auto simp: is_hex_def)
  have small: "16 * x + y < 256"
    using hex_digit_less [OF xy(1)] hex_digit_less [OF xy(2)] by simp
  then have "16 * x + y < 2 ^ 53" by simp
  then have conv: "b64_round (real (16 * x + y)) = real (16 * x + y)"
    by (rule b64_round_nat)
  have fits: "\<not> (2 ^ 1024 - 2 ^ 970 \<le> int (16 * x + y))"
    using small by simp
  have "b64_round (of_int (int (16 * x + y))) = real (16 * x + y)"
    using conv by simp
  then show ?thesis
    using fits by (simp add: hex_to_float_def int16_pair [OF xy] xy del: of_nat_add of_nat_mult)
qed

lemma channel_le:
  assumes "is_hex (s ! i)" "is_hex (s ! Suc i)"
  shows "channel s i \<le> 255"
proof -
  from assms obtain x y where xy: "hex_digit (s ! i) = Some x" "hex_digit (s ! Suc i) = Some y"
    by (auto simp: is_hex_def)
  from hex_digit_less [OF xy(1)] hex_digit_less [OF xy(2)] show ?thesis
    by (simp add: channel_def xy)
qed

lemma set_color_hex:
  assumes len: "length s = 6" and hex: "list_all is_hex s"
  shows "set_color c s =
           Inr (emit (Set_source_rgb (b64_round (HEX_TO_FLOAT * real (channel s 0)))
                        (b64_round (HEX_TO_FLOAT * real (channel s 2)))
                        (b64_round (HEX_TO_FLOAT * real (channel s 4)))) c)"
proof -
  have h: "is_hex (s ! i)" if "i < 6" for i
    using hex len that by (simp add: list_all_length)
  have nt: "s \<noteq> ''transparent''"
    using len by auto
  have f0: "hex_to_float (slice s 0 2) = Inr (b64_round (HEX_TO_FLOAT * real (channel s 0)))"
    using hex_to_float_pair [OF h [of 0] h [of 1]]
    by (simp add: slices_of_six [OF len] channel_def del: of_nat_add of_nat_mult)
  have f2: "hex_to_float (slice s 2 4) = Inr (b64_round (HEX_TO_FLOAT * real (channel s 2)))"
    using hex_to_float_pair [OF h [of 2] h [of 3]]
    by (simp add: slices_of_six [OF len] channel_def del: of_nat_add of_nat_mult)
  have f4: "hex_to_float (slice s 4 6) = Inr (b64_round (HEX_TO_FLOAT * real (channel s 4)))"
    using hex_to_float_pair [OF h [of 4] h [of 5]]
    by (simp add: slices_of_six [OF len] channel_def del: of_nat_add of_nat_mult)
  show ?thesis
    using nt by (simp add: set_color_def f0 f2 f4)
qed

text \<open>
  Claim C6, as the script has it. For every string of six hexadecimal digits,
  \<open>set_color\<close> adds to the calls on the context one \<open>set_source_rgb\<close> with three
  intensities; each is the binary64 product of \<open>HEX_TO_FLOAT\<close>, the rounded
  \<open>1.0 / 255.0\<close>, and the value of its two-digit channel, lies between 0 and 1, and is
  within \<open>2 ^ - 53\<close> of the channel value divided by 255. For \<open>transparent\<close> it adds
  one \<open>set_source_rgba\<close> of black with alpha zero.
\<close>

theorem set_color_intensities:
  assumes len: "length s = 6" and hex: "list_all is_hex s"
  shows "set_color c s =
           Inr (c\<lparr>ops := ops c @
                  [Set_source_rgb (b64_round (HEX_TO_FLOAT * real (channel s 0)))
                     (b64_round (HEX_TO_FLOAT * real (channel s 2)))
                     (b64_round (HEX_TO_FLOAT * real (channel s 4)))]\<rparr>)
         \<and> 0 \<le> b64_round (HEX_TO_FLOAT * real (channel s 0))
         \<and> b64_round (HEX_TO_FLOAT * real (channel s 0)) \<le> 1
         \<and> \<bar>b64_round (HEX_TO_FLOAT * real (channel s 0)) - real (channel s 0) / 255\<bar>
             \<le> 1 / 2 ^ 53
         \<and> 0 \<le> b64_round (HEX_TO_FLOAT * real (channel s 2))
         \<and> b64_round (HEX_TO_FLOAT * real (channel s 2)) \<le> 1
         \<and> \<bar>b64_round (HEX_TO_FLOAT * real (channel s 2)) - real (channel s 2) / 255\<bar>
             \<le> 1 / 2 ^ 53
         \<and> 0 \<le> b64_round (HEX_TO_FLOAT * real (channel s 4))
         \<and> b64_round (HEX_TO_FLOAT * real (channel s 4)) \<le> 1
         \<and> \<bar>b64_round (HEX_TO_FLOAT * real (channel s 4)) - real (channel s 4) / 255\<bar>
             \<le> 1 / 2 ^ 53
         \<and> set_color c ''transparent'' = Inr (c\<lparr>ops := ops c @ [Set_source_rgba 0 0 0 0]\<rparr>)"
proof -
  have h: "is_hex (s ! i)" if "i < 6" for i
    using hex len that by (simp add: list_all_length)
  have c0: "channel s 0 \<le> 255"
    using channel_le [of s 0] h [of 0] h [of 1] by simp
  have c2: "channel s 2 \<le> 255"
    using channel_le [of s 2] h [of 2] h [of 3] by simp
  have c4: "channel s 4 \<le> 255"
    using channel_le [of s 4] h [of 4] h [of 5] by simp
  have tr: "set_color c ''transparent'' = Inr (c\<lparr>ops := ops c @ [Set_source_rgba 0 0 0 0]\<rparr>)"
    by (simp add: set_color_def emit_def)
  have col: "set_color c s =
           Inr (c\<lparr>ops := ops c @
                  [Set_source_rgb (b64_round (HEX_TO_FLOAT * real (channel s 0)))
                     (b64_round (HEX_TO_FLOAT * real (channel s 2)))
                     (b64_round (HEX_TO_FLOAT * real (channel s 4)))]\<rparr>)"
    using set_color_hex [OF len hex, of c] by (simp add: emit_def)
  from col tr channel_intensity [OF c0] channel_intensity [OF c2] channel_intensity [OF c4]
  show ?thesis by blast
qed

theorem set_color_intensities_witness:
  "length ''3366ff'' = 6 \<and> list_all is_hex ''3366ff''
   \<and> set_color (create_context 88 31) ''3366ff''
       = Inr \<lparr>surface_width = 88, surface_height = 31, font_face = [], font_size = 10,
              ops = [Set_source_rgb (3602879701896397 / 18014398509481984)
                       (3602879701896397 / 9007199254740992) 1]\<rparr>"
proof -
  have a: "length ''3366ff'' = 6" "list_all is_hex ''3366ff''"
    by (simp_all add: is_hex_def hex_digit_def)
  have ch: "channel ''3366ff'' 0 = 51" "channel ''3366ff'' 2 = 102" "channel ''3366ff'' 4 = 255"
    by (simp_all add: channel_def hex_digit_def)
  have v: "b64_round (HEX_TO_FLOAT * 51) = 3602879701896397 / 18014398509481984"
    "b64_round (HEX_TO_FLOAT * 102) = 3602879701896397 / 9007199254740992"
    "b64_round (HEX_TO_FLOAT * 255) = 1"
    unfolding HEX_TO_FLOAT_value by (simp_all add: b64_eval)
  from set_color_intensities [OF a, of "create_context 88 31"]
  have "set_color (create_context 88 31) ''3366ff''
       = Inr \<lparr>surface_width = 88, surface_height = 31, font_face = [], font_size = 10,
              ops = [Set_source_rgb (3602879701896397 / 18014398509481984)
                       (3602879701896397 / 9007199254740992) 1]\<rparr>"
    by (simp add: ch v create_context_def)
  with a show ?thesis by blast
qed

text \<open>
  Claim C6 as it was stated, with each intensity equal to the channel value divided
  by 255, fails on the script: for the color \<open>212121\<close>, whose channels have
  the value 33, the script sets \<open>291409387653385 / 2 ^ 51\<close>, which is neither 33 / 255
  nor the binary64 quotient \<open>33 / 255.0\<close>, its neighbour \<open>4662550202454161 / 2 ^ 55\<close>.
\<close>

theorem set_color_quotient_counterexample:
  "channel ''212121'' 0 = 33
   \<and> set_color (create_context 88 31) ''212121''
       = Inr \<lparr>surface_width = 88, surface_height = 31, font_face = [], font_size = 10,
              ops = [Set_source_rgb (291409387653385 / 2251799813685248)
                       (291409387653385 / 2251799813685248)
                       (291409387653385 / 2251799813685248)]\<rparr>
   \<and> (291409387653385 / 2251799813685248 :: real) \<noteq> 33 / 255
   \<and> b64_round (33 / 255) = 4662550202454161 / 36028797018963968
   \<and> (291409387653385 / 2251799813685248 :: real) \<noteq> 4662550202454161 / 36028797018963968"
proof -
  have ch: "channel ''212121'' 0 = 33"
    by (simp add: channel_def hex_digit_def)
  have v: "b64_round (HEX_TO_FLOAT * b64_round 33) = 291409387653385 / 2251799813685248"
    unfolding HEX_TO_FLOAT_value by (simp add: b64_eval)
  have q: "b64_round (33 / 255) = 4662550202454161 / 36028797018963968"
    by (simp add: b64_eval)
  have col: "set_color (create_context 88 31) ''212121''
       = Inr \<lparr>surface_width = 88, surface_height = 31, font_face = [], font_size = 10,
              ops = [Set_source_rgb (291409387653385 / 2251799813685248)
                       (291409387653385 / 2251799813685248)
                       (291409387653385 / 2251799813685248)]\<rparr>"
    by (simp add: set_color_def slice_def hex_to_float_def int16_def hex_digit_def v emit_def
        create_context_def)
  have ne: "(291409387653385 / 2251799813685248 :: real) \<noteq> 33 / 255"
    "(291409387653385 / 2251799813685248 :: real) \<noteq> 4662550202454161 / 36028797018963968"
    by simp_all
  from ch col q ne show ?thesis by blast
qed

subsection \<open>Path derivation\<close>

text \<open>The model of \<open>os.path.join\<close> on the cases that distinguish its branches.\<close>

lemma os_path_join_examples:
  "os_path_join ''a'' [''b'', ''c''] = ''a/b/c''"
  "os_path_join ''a'' [[], ''b''] = ''a/b''"
  "os_path_join ''a/'' [''b''] = ''a/b''"
  "os_path_join [] [''b''] = ''b''"
  "os_path_join ''a'' [''/b'', ''c''] = ''/b/c''"
  by (simp_all add: os_path_join_def join_step_def)

lemma str_contains_single: "str_contains [ch] s \<longleftrightarrow> ch \<in> set s"
  by (induction s) auto

lemma join_step_plain:
  assumes "p \<noteq> []" "last p \<noteq> CHR ''/''" "b = [] \<or> hd b \<noteq> CHR ''/''"
  shows "join_step p b = p @ ''/'' @ b"
  using assms by (cases b) (auto simp: join_step_def)

lemma seg_last: "seg x \<Longrightarrow> last x \<noteq> CHR ''/''"
  unfolding seg_def using last_in_set by metis

lemma seg_hd: "seg x \<Longrightarrow> hd x \<noteq> CHR ''/''"
  unfolding seg_def using hd_in_set by metis

lemma split_at_sep:
  assumes "CHR ''/'' \<notin> set a" "CHR ''/'' \<notin> set a'" "a @ CHR ''/'' # x = a' @ CHR ''/'' # x'"
  shows "a = a' \<and> x = x'"
proof -
  have "\<forall>ch\<in>set a. ch \<noteq> CHR ''/''" "\<forall>ch\<in>set a'. ch \<noteq> CHR ''/''"
    using assms(1,2) by auto
  then have "takeWhile (\<lambda>ch. ch \<noteq> CHR ''/'') (a @ CHR ''/'' # x) = a"
    "takeWhile (\<lambda>ch. ch \<noteq> CHR ''/'') (a' @ CHR ''/'' # x') = a'"
    by (simp_all add: takeWhile_append2)
  then have "a = a'" using assms(3) by simp
  with assms(3) show ?thesis by simp
qed

lemma icon_path_shape:
  assumes "seg s" "seg d" "seg b" "seg (slice f 0 2)" "seg (slice f 2 4)" "seg (slice f 4 6)"
  shows "icon_path s d b f =
    s @ ''/'' @ d @ ''/'' @ b @ ''/'' @ slice f 0 2 @ ''/'' @ slice f 2 4 @ ''/'' @ slice f 4 6"
proof -
  let ?f0 = "slice f 0 2" and ?f1 = "slice f 2 4" and ?f2 = "slice f 4 6"
  have n: "s \<noteq> []" "d \<noteq> []" "b \<noteq> []" "?f0 \<noteq> []" "?f1 \<noteq> []" "?f2 \<noteq> []"
    using assms by (simp_all add: seg_def)
  have fp: "os_path_join ?f0 [?f1, ?f2] = ?f0 @ ''/'' @ ?f1 @ ''/'' @ ?f2"
    using n seg_last [OF assms(4)] seg_last [OF assms(5)] seg_hd [OF assms(5)] seg_hd [OF assms(6)]
    by (simp add: os_path_join_def join_step_plain)
  have hdfp: "hd (?f0 @ ''/'' @ ?f1 @ ''/'' @ ?f2) \<noteq> CHR ''/''"
    using n seg_hd [OF assms(4)] by simp
  have "os_path_join s [d, b, ?f0 @ ''/'' @ ?f1 @ ''/'' @ ?f2] =
      s @ ''/'' @ d @ ''/'' @ b @ ''/'' @ ?f0 @ ''/'' @ ?f1 @ ''/'' @ ?f2"
    using n seg_last [OF assms(1)] seg_last [OF assms(2)] seg_last [OF assms(3)]
      seg_hd [OF assms(2)] seg_hd [OF assms(3)] hdfp
    by (simp add: os_path_join_def join_step_plain)
  then show ?thesis
    by (simp add: icon_path_def fp)
qed

lemma six_segments:
  assumes "length f = 6" "CHR ''/'' \<notin> set f"
  shows "seg (slice f 0 2)" "seg (slice f 2 4)" "seg (slice f 4 6)"
    "f = slice f 0 2 @ slice f 2 4 @ slice f 4 6"
proof -
  from assms(1) obtain a b c d e g where f: "f = [a, b, c, d, e, g]"
    by (auto simp: length_Suc_conv eval_nat_numeral)
  with assms(2) show "seg (slice f 0 2)" "seg (slice f 2 4)" "seg (slice f 4 6)"
    "f = slice f 0 2 @ slice f 2 4 @ slice f 4 6"
    by (simp_all add: seg_def slice_def)
qed

lemma icon_path_inj:
  assumes "seg s" "seg d" "seg b" "length f = 6" "CHR ''/'' \<notin> set f"
    and "seg s'" "seg d'" "seg b'" "length f' = 6" "CHR ''/'' \<notin> set f'"
    and eq: "icon_path s d b f = icon_path s' d' b' f'"
  shows "s = s' \<and> d = d' \<and> b = b' \<and> f = f'"
proof -
  note F = six_segments [OF assms(4,5)] and F' = six_segments [OF assms(9,10)]
  have e: "s @ CHR ''/'' # d @ CHR ''/'' # b @ CHR ''/'' # slice f 0 2 @ CHR ''/'' # slice f 2 4
           @ CHR ''/'' # slice f 4 6
         = s' @ CHR ''/'' # d' @ CHR ''/'' # b' @ CHR ''/'' # slice f' 0 2 @ CHR ''/'' #
           slice f' 2 4 @ CHR ''/'' # slice f' 4 6"
    using eq icon_path_shape [OF assms(1,2,3) F(1,2,3)] icon_path_shape [OF assms(6,7,8) F'(1,2,3)]
    by simp
  have ns: "CHR ''/'' \<notin> set s" "CHR ''/'' \<notin> set d" "CHR ''/'' \<notin> set b"
    "CHR ''/'' \<notin> set s'" "CHR ''/'' \<notin> set d'" "CHR ''/'' \<notin> set b'"
    "CHR ''/'' \<notin> set (slice f 0 2)" "CHR ''/'' \<notin> set (slice f 2 4)"
    "CHR ''/'' \<notin> set (slice f' 0 2)" "CHR ''/'' \<notin> set (slice f' 2 4)"
    using assms(1,2,3,6,7,8) F(1,2) F'(1,2) by (simp_all add: seg_def)
  from split_at_sep [OF ns(1) ns(4) e] have s: "s = s'" and e1: "d @ CHR ''/'' # b @ CHR ''/'' # slice f 0 2 @ CHR ''/'' # slice f 2 4
           @ CHR ''/'' # slice f 4 6 = d' @ CHR ''/'' # b' @ CHR ''/'' # slice f' 0 2 @ CHR ''/'' #
           slice f' 2 4 @ CHR ''/'' # slice f' 4 6" by simp_all
  from split_at_sep [OF ns(2) ns(5) e1] have d: "d = d'" and e2: "b @ CHR ''/'' # slice f 0 2 @ CHR ''/'' # slice f 2 4
           @ CHR ''/'' # slice f 4 6 = b' @ CHR ''/'' # slice f' 0 2 @ CHR ''/'' #
           slice f' 2 4 @ CHR ''/'' # slice f' 4 6" by simp_all
  from split_at_sep [OF ns(3) ns(6) e2] have b: "b = b'" and e3: "slice f 0 2 @ CHR ''/'' # slice f 2 4
           @ CHR ''/'' # slice f 4 6 = slice f' 0 2 @ CHR ''/'' #
           slice f' 2 4 @ CHR ''/'' # slice f' 4 6" by simp_all
  from split_at_sep [OF ns(7) ns(9) e3] have f0: "slice f 0 2 = slice f' 0 2" and e4: "slice f 2 4
           @ CHR ''/'' # slice f 4 6 = slice f' 2 4 @ CHR ''/'' # slice f' 4 6" by simp_all
  from split_at_sep [OF ns(8) ns(10) e4] have f1: "slice f 2 4 = slice f' 2 4"
    and f2: "slice f 4 6 = slice f' 4 6" by simp_all
  have "f = f'" using F(4) F'(4) f0 f1 f2 by simp
  with s d b show ?thesis by simp
qed

lemma steps_hex: "r \<in> set STEPS \<Longrightarrow> length r = 2 \<and> list_all is_hex r \<and> CHR ''/'' \<notin> set r"
  by (auto simp: STEPS_def is_hex_def hex_digit_def)

lemma foregrounds_hex:
  assumes "f \<in> set FOREGROUNDS"
  shows "length f = 6" "list_all is_hex f" "CHR ''/'' \<notin> set f"
proof -
  from assms obtain r g b where "r \<in> set STEPS" "g \<in> set STEPS" "b \<in> set STEPS" "f = r @ g @ b"
    by (auto simp: FOREGROUNDS_def)
  with steps_hex [of r] steps_hex [of g] steps_hex [of b]
  show "length f = 6" "list_all is_hex f" "CHR ''/'' \<notin> set f" by simp_all
qed

lemma suite_keys_seg: "s \<in> set suite_keys \<Longrightarrow> seg s"
  by (auto simp: suite_keys_def SUITES_def seg_def)

lemma descriptor_names_seg: "d \<in> set descriptor_names \<Longrightarrow> seg d"
  by (auto simp: descriptor_names_def SUITES_def seg_def)

lemma backgrounds_seg: "b \<in> set BACKGROUNDS \<Longrightarrow> seg b"
  by (auto simp: BACKGROUNDS_def seg_def)

text \<open>
  Claim C4. \<open>icon_path\<close> is a function of its four arguments alone (it reads no
  state, so it is deterministic). On the enumerated domain (keys of \<open>SUITES\<close>,
  descriptor names, \<open>BACKGROUNDS\<close>, \<open>FOREGROUNDS\<close>) every foreground is a string of
  six hexadecimal digits, the path is suite, descriptor, background and the three
  two-digit pieces of the foreground joined by \<open>/\<close>, and two tuples have the same
  path only when they are the same tuple.
\<close>

theorem icon_path_injective:
  assumes "s \<in> set suite_keys" "d \<in> set descriptor_names" "b \<in> set BACKGROUNDS"
    "f \<in> set FOREGROUNDS"
    and "s' \<in> set suite_keys" "d' \<in> set descriptor_names" "b' \<in> set BACKGROUNDS"
    "f' \<in> set FOREGROUNDS"
  shows "length f = 6 \<and> list_all is_hex f
    \<and> icon_path s d b f =
        s @ ''/'' @ d @ ''/'' @ b @ ''/'' @ slice f 0 2 @ ''/'' @ slice f 2 4 @ ''/'' @ slice f 4 6
    \<and> (icon_path s d b f = icon_path s' d' b' f' \<longleftrightarrow> (s, d, b, f) = (s', d', b', f'))"
proof -
  note S = suite_keys_seg [OF assms(1)] descriptor_names_seg [OF assms(2)]
    backgrounds_seg [OF assms(3)]
  note S' = suite_keys_seg [OF assms(5)] descriptor_names_seg [OF assms(6)]
    backgrounds_seg [OF assms(7)]
  note F = foregrounds_hex [OF assms(4)] and F' = foregrounds_hex [OF assms(8)]
  have shape: "icon_path s d b f =
        s @ ''/'' @ d @ ''/'' @ b @ ''/'' @ slice f 0 2 @ ''/'' @ slice f 2 4 @ ''/'' @ slice f 4 6"
    using icon_path_shape [OF S six_segments(1,2,3) [OF F(1) F(3)]] .
  have inj: "icon_path s d b f = icon_path s' d' b' f' \<Longrightarrow> (s, d, b, f) = (s', d', b', f')"
    using icon_path_inj [OF S F(1) F(3) S' F'(1) F'(3)] by simp
  from F(1,2) shape inj show ?thesis by auto
qed

theorem icon_path_injective_witness:
  "icon_path ''l'' ''by-nc'' ''transparent'' ''3366ff'' = ''l/by-nc/transparent/33/66/ff''
   \<and> icon_path ''l'' ''by-nc'' ''transparent'' ''3366ff'' \<noteq> icon_path ''p'' ''cc-zero'' ''ffffff'' ''336699''"
proof -
  have a: "''l'' \<in> set suite_keys" "''p'' \<in> set suite_keys"
    by (simp_all add: suite_keys_def SUITES_def)
  have b: "''by-nc'' \<in> set descriptor_names" "''cc-zero'' \<in> set descriptor_names"
    by (simp_all add: descriptor_names_def SUITES_def)
  have c: "''transparent'' \<in> set BACKGROUNDS" "''ffffff'' \<in> set BACKGROUNDS"
    by (simp_all add: BACKGROUNDS_def)
  have d: "''3366ff'' \<in> set FOREGROUNDS" "''336699'' \<in> set FOREGROUNDS"
    by (simp_all add: FOREGROUNDS_def STEPS_def)
  note t = icon_path_injective [OF a(1) b(1) c(1) d(1) a(2) b(2) c(2) d(2)]
  from t have shape: "icon_path ''l'' ''by-nc'' ''transparent'' ''3366ff'' = ''l/by-nc/transparent/33/66/ff''"
    by (simp add: slice_def)
  from t [THEN conjunct2, THEN conjunct2, THEN conjunct2]
  have ne: "icon_path ''l'' ''by-nc'' ''transparent'' ''3366ff'' \<noteq> icon_path ''p'' ''cc-zero'' ''ffffff'' ''336699''"
    by simp
  from shape ne show ?thesis by blast
qed

subsection \<open>File names\<close>

lemma str_int_examples:
  "str_int 88 = ''88''" "str_int 0 = ''0''" "str_int 1500 = ''1500''" "str_int (- 5) = ''-5''"
  by (simp_all add: str_int_def str_nat.simps)

lemma str_nat_hd: "str_nat n \<noteq> [] \<and> hd (str_nat n) \<in> set ''0123456789''"
proof (induction n rule: str_nat.induct)
  case (1 n)
  show ?case
  proof (cases "n < 10")
    case True
    then have "''0123456789'' ! n \<in> set ''0123456789''"
      by (intro nth_mem) simp
    with True show ?thesis
      by (subst (1 2) str_nat.simps) simp
  next
    case False
    with 1 show ?thesis
      by (subst (1 2) str_nat.simps) simp
  qed
qed

lemma str_int_hd: "str_int i \<noteq> [] \<and> hd (str_int i) \<noteq> CHR ''/''"
proof -
  have "hd (str_nat n) \<noteq> CHR ''/''" for n
    using str_nat_hd [of n] by auto
  then show ?thesis
    using str_nat_hd by (simp add: str_int_def)
qed

lemma icon_filename_hd:
  "icon_filename dims chars \<noteq> [] \<and> hd (icon_filename dims chars) \<noteq> CHR ''/''"
  using str_int_hd by (cases dims) (simp add: icon_filename_def)

lemma join_step_inj:
  assumes "a \<noteq> []" "hd a \<noteq> CHR ''/''" "b \<noteq> []" "hd b \<noteq> CHR ''/''"
    and "join_step p a = join_step p b"
  shows "a = b"
  using assms by (cases a; cases b) (auto simp: join_step_def split: if_splits)

lemma icon_filename_suffix:
  assumes "icon_filename dims c1 = icon_filename dims c2"
  shows "filename_suffix c1 = filename_suffix c2"
  using assms by (cases dims) (simp add: icon_filename_def)

text \<open>
  Claim C2. For every dimension tuple and every character sequence,
  \<open>icon_filename\<close> is the width, an \<open>x\<close>, the height, the suffix and \<open>.png\<close>,
  where the suffix is \<open>-y\<close> if some character is \<open>y\<close>, else \<open>-e\<close> if some character
  is \<open>e\<close>, else empty; \<open>y\<close> wins over \<open>e\<close>: the characters b, y, e give \<open>-y\<close>.
\<close>

theorem icon_filename_format:
  "icon_filename (w, h, fsz, pad) chars =
     str_int w @ ''x'' @ str_int h
       @ (if CHR ''y'' \<in> set chars then ''-y'' else if CHR ''e'' \<in> set chars then ''-e'' else [])
       @ ''.png''
   \<and> icon_filename (88, 31, 31, 1) ''bye'' = ''88x31-y.png''"
  by (simp add: icon_filename_def filename_suffix_def str_contains_single str_int_def
      str_nat.simps)

lemma variants_suffix:
  assumes "(suite, licenses) \<in> set SUITES" "(lic, module_chars) \<in> set licenses"
  shows "distinct (map filename_suffix module_chars)"
  using assms by (auto simp: SUITES_def filename_suffix_def str_contains_single)

text \<open>
  Claim C9. For every license descriptor of \<open>SUITES\<close>, its character codes have
  pairwise distinct suffixes, so two different codes of one descriptor give, for
  the same dimensions, different file names and different joined paths in any
  directory; the file paths of the driver differ as well, unless the file tree
  itself identifies two of these names (a symbolic link between them).
\<close>

theorem variants_distinct:
  assumes "(suite, licenses) \<in> set SUITES" "(lic, module_chars) \<in> set licenses"
    and "c1 \<in> set module_chars" "c2 \<in> set module_chars" "c1 \<noteq> c2"
  shows "distinct (map filename_suffix module_chars)
    \<and> icon_filename dims c1 \<noteq> icon_filename dims c2
    \<and> os_path_join path [icon_filename dims c1] \<noteq> os_path_join path [icon_filename dims c2]
    \<and> (inj_on (realpath env)
          ((\<lambda>c. os_path_join (combo_path env basedir (suite, lic, c1, dims, bg, fg))
                  [icon_filename dims c]) ` set module_chars) \<longrightarrow>
         combo_filepath env basedir (suite, lic, c1, dims, bg, fg)
         \<noteq> combo_filepath env basedir (suite, lic, c2, dims, bg, fg))"
proof -
  note d = variants_suffix [OF assms(1,2)]
  have sfx: "filename_suffix c1 \<noteq> filename_suffix c2"
    using d assms(3,4,5) by (auto simp: distinct_map inj_on_def)
  then have fn: "icon_filename dims c1 \<noteq> icon_filename dims c2"
    using icon_filename_suffix by blast
  have jn: "os_path_join p [icon_filename dims c1] \<noteq> os_path_join p [icon_filename dims c2]" for p
    using fn join_step_inj [of "icon_filename dims c1" "icon_filename dims c2" p]
      icon_filename_hd [of dims c1] icon_filename_hd [of dims c2]
    by (auto simp: os_path_join_def)
  let ?dir = "combo_path env basedir (suite, lic, c1, dims, bg, fg)"
  have "combo_filepath env basedir (suite, lic, c1, dims, bg, fg)
         \<noteq> combo_filepath env basedir (suite, lic, c2, dims, bg, fg)"
    if i: "inj_on (realpath env)
             ((\<lambda>c. os_path_join ?dir [icon_filename dims c]) ` set module_chars)"
  proof
    assume "combo_filepath env basedir (suite, lic, c1, dims, bg, fg)
         = combo_filepath env basedir (suite, lic, c2, dims, bg, fg)"
    then have "realpath env (os_path_join ?dir [icon_filename dims c1])
         = realpath env (os_path_join ?dir [icon_filename dims c2])"
      by simp
    with i assms(3,4) have "os_path_join ?dir [icon_filename dims c1]
         = os_path_join ?dir [icon_filename dims c2]"
      by (auto dest: inj_onD)
    with jn show False by blast
  qed
  with d fn jn show ?thesis by blast
qed

theorem variants_distinct_witness:
  "icon_filename (88, 31, 31, 1) ''bn'' \<noteq> icon_filename (88, 31, 31, 1) ''be''
   \<and> os_path_join ''/w'' [icon_filename (88, 31, 31, 1) ''bn'']
     \<noteq> os_path_join ''/w'' [icon_filename (88, 31, 31, 1) ''be'']
   \<and> combo_filepath demo_env ''/r/www/i'' (''l'', ''by-nc'', ''bn'', (88, 31, 31, 1), ''ffffff'', ''000000'')
     \<noteq> combo_filepath demo_env ''/r/www/i'' (''l'', ''by-nc'', ''be'', (88, 31, 31, 1), ''ffffff'', ''000000'')"
proof -
  have a: "(''l'', snd (hd SUITES)) \<in> set SUITES"
    by (simp add: SUITES_def)
  have b: "(''by-nc'', [''bn'', ''be'', ''by'']) \<in> set (snd (hd SUITES))"
    by (simp add: SUITES_def)
  have c: "''bn'' \<in> set [''bn'', ''be'', ''by'']" "''be'' \<in> set [''bn'', ''be'', ''by'']"
    "''bn'' \<noteq> ''be''"
    by simp_all
  have i: "inj_on (realpath demo_env)
     ((\<lambda>c. os_path_join
            (combo_path demo_env ''/r/www/i''
               (''l'', ''by-nc'', ''bn'', (88, 31, 31, 1), ''ffffff'', ''000000''))
            [icon_filename (88, 31, 31, 1) c]) ` set [''bn'', ''be'', ''by''])"
    by (simp add: demo_env_def icon_path_def os_path_join_def join_step_def slice_def
        icon_filename_def filename_suffix_def str_int_def str_nat.simps)
  note t = variants_distinct [OF a b c, of "(88, 31, 31, 1)" "''/w''" demo_env "''/r/www/i''"
      "''ffffff''" "''000000''"]
  from t i show ?thesis by blast
qed

subsection \<open>Rendering\<close>

lemma hex_to_float_error:
  "hex_to_float s = Inl e \<Longrightarrow> e = ValueError \<or> e = OverflowError"
proof -
  have "int16_acc a s = Inl e \<Longrightarrow> e = ValueError" for a
    by (induction s arbitrary: a) (auto split: option.splits)
  then show "hex_to_float s = Inl e \<Longrightarrow> e = ValueError \<or> e = OverflowError"
    by (auto simp: hex_to_float_def int16_def split: sum.splits if_splits)
qed

lemma set_color_error: "set_color c s = Inl e \<Longrightarrow> e = ValueError \<or> e = OverflowError"
  by (auto simp: set_color_def split: if_splits sum.splits dest: hex_to_float_error)

lemma set_color_background: "b \<in> set BACKGROUNDS \<Longrightarrow> \<exists>c'. set_color c b = Inr c'"
proof -
  assume "b \<in> set BACKGROUNDS"
  then consider "b = ''transparent''" | "length b = 6 \<and> list_all is_hex b"
    by (auto simp: BACKGROUNDS_def is_hex_def hex_digit_def)
  then show ?thesis
  proof cases
    case 1
    then show ?thesis by (simp add: set_color_def)
  next
    case 2
    then show ?thesis using set_color_hex [of b c] by simp
  qed
qed

lemma set_color_foreground: "f \<in> set FOREGROUNDS \<Longrightarrow> \<exists>c'. set_color c f = Inr c'"
  using set_color_hex [of f c] foregrounds_hex [of f] by simp

lemma show_chars_empty: "show_chars env c [] foreground padding width height = Inl IndexError"
  by (simp add: show_chars_def size_chars_def)

lemma show_chars_nonempty:
  assumes "chars \<noteq> []"
  shows "show_chars env c chars foreground padding width height =
    (case set_color c foreground of
       Inl e \<Rightarrow> Inl e
     | Inr c1 \<Rightarrow>
         Inr (emit Stroke
           (draw_chars (zip chars (size_chars env c chars))
              (1 / 2 + of_int \<lceil>of_int width / 2
                 - (sum_list (map idx3 (size_chars env c chars))
                    + of_int (padding * (int (length chars) - 1))) / 2\<rceil>)
              (\<lceil>(of_int height :: real) / 2\<rceil> + \<lfloor>idx3 (hd (size_chars env c chars)) / 2\<rfloor>)
              padding c1)))"
proof -
  have f: "foldl (\<lambda>x y. idx3 y + x) a xs = a + sum_list (map idx3 xs)" for a xs
    by (induction xs arbitrary: a) (simp_all add: algebra_simps)
  from assms obtain s0 rest where s: "size_chars env c chars = s0 # rest"
    by (cases chars) (auto simp: size_chars_def)
  show ?thesis
    unfolding show_chars_def Let_def f s by (simp split: sum.splits)
qed

lemma show_chars_index_error:
  "show_chars env c chars foreground padding width height = Inl IndexError \<longleftrightarrow> chars = []"
proof (cases "chars = []")
  case True
  then show ?thesis by (simp add: show_chars_empty)
next
  case False
  then show ?thesis
    by (auto simp: show_chars_nonempty split: sum.splits dest: set_color_error)
qed

lemma suites_chars_nonempty:
  assumes "(suite, licenses) \<in> set SUITES" "(lic, module_chars) \<in> set licenses"
    "chars \<in> set module_chars"
  shows "chars \<noteq> []"
  using assms by (auto simp: SUITES_def)

lemma set_concat_map_iff: "x \<in> set (concat (map f xs)) \<longleftrightarrow> (\<exists>y\<in>set xs. x \<in> set (f y))"
  by auto

lemma in_combos:
  "(s, l, c, d, b, f) \<in> set combos \<longleftrightarrow>
     (\<exists>licenses module_chars. (s, licenses) \<in> set SUITES \<and> (l, module_chars) \<in> set licenses
        \<and> c \<in> set module_chars)
     \<and> d \<in> set DIMENSIONS \<and> b \<in> set BACKGROUNDS \<and> f \<in> set FOREGROUNDS"
proof -
  have "(s, l, c, d, b, f) \<in> set combos \<longleftrightarrow>
     (\<exists>x\<in>set SUITES. \<exists>y\<in>set (snd x). \<exists>chars\<in>set (snd y). \<exists>dimensions\<in>set DIMENSIONS.
        \<exists>background\<in>set BACKGROUNDS. \<exists>foreground\<in>set FOREGROUNDS.
          (s, l, c, d, b, f) = (fst x, fst y, chars, dimensions, background, foreground))"
    unfolding combos_def
    by (simp only: set_concat_map_iff split_def set_map image_iff set_simps empty_iff bex_simps
        singleton_iff insert_iff simp_thms)
  also have "\<dots> \<longleftrightarrow>
     (\<exists>licenses module_chars. (s, licenses) \<in> set SUITES \<and> (l, module_chars) \<in> set licenses
        \<and> c \<in> set module_chars)
     \<and> d \<in> set DIMENSIONS \<and> b \<in> set BACKGROUNDS \<and> f \<in> set FOREGROUNDS"
    by (simp only: prod.inject) force
  finally show ?thesis .
qed

lemma genicon_enumerated:
  assumes "(suite, lic, chars, (width, height, fsize, padding), background, foreground) \<in> set combos"
  shows "chars \<noteq> [] \<and> (\<exists>c. genicon env suite chars fsize padding width height background foreground = Inr c)"
proof -
  from assms have b: "background \<in> set BACKGROUNDS" and f: "foreground \<in> set FOREGROUNDS"
    and ne: "chars \<noteq> []"
    by (auto simp: in_combos dest: suites_chars_nonempty)
  from set_color_background [OF b] obtain c1
    where c1: "set_color (create_context width height) background = Inr c1" by blast
  let ?c2 = "configure_font (emit Fill (emit (Rectangle 0 0 (of_int width) (of_int height)) c1)) fsize"
  from set_color_foreground [OF f] obtain c3 where c3: "set_color ?c2 foreground = Inr c3"
    by blast
  show ?thesis
    using ne by (simp add: genicon_def set_background_def c1 show_chars_nonempty c3)
qed

lemma combos_first: "\<exists>rest. combos = first_combo # rest"
proof -
  obtain fr where f: "FOREGROUNDS = ''000000'' # fr"
    by (simp add: FOREGROUNDS_def STEPS_def)
  obtain br where b: "BACKGROUNDS = ''transparent'' # br"
    by (simp add: BACKGROUNDS_def)
  obtain dr where d: "DIMENSIONS = (88, 31, 31, 1) # dr"
    by (simp add: DIMENSIONS_def)
  show ?thesis
    unfolding combos_def SUITES_def f b d first_combo_def by simp
qed

subsection \<open>The loop body\<close>

lemma try_makedirs_effect:
  assumes "try_makedirs env fs path = (r, fs1)"
  shows "files fs1 = files fs \<and> dirs fs \<subseteq> dirs fs1"
  using assms
  by (auto simp: try_makedirs_def os_makedirs_def split: option.splits if_splits exc.splits)

lemma write_to_png_effect:
  assumes "write_to_png env fs c filepath = (r, fs1)"
  shows "dirs fs1 = dirs fs
    \<and> (case r of None \<Rightarrow> files fs1 = (files fs)(filepath \<mapsto> c) | Some e \<Rightarrow> fs1 = fs)"
  using assms by (auto simp: write_to_png_def split: option.splits)

lemma loop_body_same_color:
  "combo_fg cmb = combo_bg cmb \<Longrightarrow> loop_body env basedir fs cmb = (None, fs, [])"
  by (cases cmb) (simp add: loop_body_def)

lemma loop_body_exists:
  "path_exists fs (combo_filepath env basedir cmb) \<Longrightarrow> loop_body env basedir fs cmb = (None, fs, [])"
  by (cases cmb) (simp add: loop_body_def Let_def del: combo_filepath.simps combo_path.simps)

text \<open>The body when neither test skips the combination.\<close>

lemma loop_body_render:
  assumes "combo_fg cmb \<noteq> combo_bg cmb" "\<not> path_exists fs (combo_filepath env basedir cmb)"
    and "cmb = (suite, lic, chars, (width, height, fsize, padding), background, foreground)"
  shows "loop_body env basedir fs cmb =
    (case genicon env suite chars fsize padding width height background foreground of
       Inl e \<Rightarrow> (Some e, fs, [Ev_genicon cmb])
     | Inr c \<Rightarrow>
         (case try_makedirs env fs (combo_path env basedir cmb) of
            (Some e, fs1) \<Rightarrow>
              (Some e, fs1, [Ev_genicon cmb, Ev_makedirs cmb (combo_path env basedir cmb)])
          | (None, fs1) \<Rightarrow>
              (case write_to_png env fs1 c (combo_filepath env basedir cmb) of
                 (r, fs2) \<Rightarrow>
                   (r, fs2,
                    [Ev_genicon cmb, Ev_makedirs cmb (combo_path env basedir cmb),
                     Ev_write cmb (combo_filepath env basedir cmb)]))))"
  using assms(1,2) unfolding assms(3) loop_body_def Let_def
  by (simp del: combo_filepath.simps combo_path.simps)

lemma loop_body_effect:
  assumes "loop_body env basedir fs cmb = (r, fs1, evs)"
  shows "(\<forall>p x. files fs p = Some x \<longrightarrow> files fs1 p = Some x) \<and> dirs fs \<subseteq> dirs fs1
    \<and> (\<forall>ev\<in>set evs. event_combo ev = Some cmb \<and> combo_fg cmb \<noteq> combo_bg cmb)
    \<and> (r = None \<longrightarrow> combo_fg cmb \<noteq> combo_bg cmb \<longrightarrow>
          path_exists fs1 (combo_filepath env basedir cmb))"
proof (cases "combo_fg cmb = combo_bg cmb \<or> path_exists fs (combo_filepath env basedir cmb)")
  case True
  then have "loop_body env basedir fs cmb = (None, fs, [])"
    using loop_body_same_color loop_body_exists by blast
  with assms True show ?thesis by auto
next
  case False
  obtain suite lic chars width height fsize padding background foreground
    where cmb: "cmb = (suite, lic, chars, (width, height, fsize, padding), background, foreground)"
    by (cases cmb) auto
  let ?path = "combo_path env basedir cmb" and ?filepath = "combo_filepath env basedir cmb"
  from False have nf: "files fs ?filepath = None"
    by (simp add: path_exists_def)
  note body = loop_body_render [where env = env and basedir = basedir and fs = fs, OF _ _ cmb]
  show ?thesis
  proof (cases "genicon env suite chars fsize padding width height background foreground")
    case (Inl e)
    with assms False body show ?thesis by auto
  next
    case (Inr c)
    obtain r1 fs' where mk: "try_makedirs env fs ?path = (r1, fs')"
      by (cases "try_makedirs env fs ?path") auto
    note mke = try_makedirs_effect [OF mk]
    show ?thesis
    proof (cases r1)
      case (Some e)
      with assms False body Inr mk mke show ?thesis by auto
    next
      case None
      obtain r2 fs2 where wr: "write_to_png env fs' c ?filepath = (r2, fs2)"
        by (cases "write_to_png env fs' c ?filepath") auto
      note wre = write_to_png_effect [OF wr]
      from assms False body Inr mk None wr
      have res: "r = r2" "fs1 = fs2"
        "evs = [Ev_genicon cmb, Ev_makedirs cmb ?path, Ev_write cmb ?filepath]"
        by auto
      have keep: "\<forall>p x. files fs p = Some x \<longrightarrow> files fs2 p = Some x"
        using wre mke nf by (cases r2) auto
      have ex: "r2 = None \<longrightarrow> path_exists fs2 ?filepath"
        using wre by (auto simp: path_exists_def)
      from keep ex wre mke False show ?thesis
        unfolding res by auto
    qed
  qed
qed

subsection \<open>The loops\<close>

lemma path_exists_mono:
  assumes "\<forall>p x. files fs p = Some x \<longrightarrow> files fs1 p = Some x" "dirs fs \<subseteq> dirs fs1"
    and "path_exists fs q"
  shows "path_exists fs1 q"
  using assms by (auto simp: path_exists_def)

lemma run_combos_effect:
  assumes "run_combos env basedir fs cs = (r, fs1, evs)"
  shows "(\<forall>p x. files fs p = Some x \<longrightarrow> files fs1 p = Some x) \<and> dirs fs \<subseteq> dirs fs1
    \<and> (\<forall>ev\<in>set evs. \<exists>cmb\<in>set cs. event_combo ev = Some cmb \<and> combo_fg cmb \<noteq> combo_bg cmb)
    \<and> (r = None \<longrightarrow>
         (\<forall>cmb\<in>set cs. combo_fg cmb \<noteq> combo_bg cmb \<longrightarrow>
            path_exists fs1 (combo_filepath env basedir cmb)))"
  using assms
proof (induction cs arbitrary: fs r fs1 evs)
  case Nil
  then show ?case by simp
next
  case (Cons cmb rest)
  obtain r0 fs0 evs0 where lb: "loop_body env basedir fs cmb = (r0, fs0, evs0)"
    by (cases "loop_body env basedir fs cmb") auto
  note e0 = loop_body_effect [OF lb]
  show ?case
  proof (cases r0)
    case (Some e)
    with Cons.prems lb have "r = Some e" "fs1 = fs0" "evs = evs0" by auto
    with e0 show ?thesis by auto
  next
    case None
    obtain r2 fs2 evs2 where rc: "run_combos env basedir fs0 rest = (r2, fs2, evs2)"
      by (cases "run_combos env basedir fs0 rest") auto
    note e2 = Cons.IH [OF rc]
    from Cons.prems lb None rc have res: "r = r2" "fs1 = fs2" "evs = evs0 @ evs2" by auto
    have keep: "\<forall>p x. files fs p = Some x \<longrightarrow> files fs2 p = Some x"
      using e0 e2 by blast
    have sub: "dirs fs \<subseteq> dirs fs2"
      using e0 e2 by blast
    have evs: "\<forall>ev\<in>set (evs0 @ evs2). \<exists>c\<in>set (cmb # rest).
        event_combo ev = Some c \<and> combo_fg c \<noteq> combo_bg c"
      using e0 e2 by auto
    have hd: "combo_fg cmb \<noteq> combo_bg cmb \<longrightarrow> path_exists fs2 (combo_filepath env basedir cmb)"
      using e0 None path_exists_mono [of fs0 fs2] e2 by blast
    have tl: "r2 = None \<longrightarrow> (\<forall>c\<in>set rest. combo_fg c \<noteq> combo_bg c \<longrightarrow>
        path_exists fs2 (combo_filepath env basedir c))"
      using e2 by blast
    from keep sub evs hd tl show ?thesis
      unfolding res by simp
  qed
qed

lemma run_combos_all_exist:
  assumes "\<forall>cmb\<in>set cs. combo_fg cmb \<noteq> combo_bg cmb \<longrightarrow>
      path_exists fs (combo_filepath env basedir cmb)"
  shows "run_combos env basedir fs cs = (None, fs, [])"
  using assms
proof (induction cs)
  case Nil
  then show ?case by simp
next
  case (Cons cmb rest)
  then have "loop_body env basedir fs cmb = (None, fs, [])"
    using loop_body_same_color [of cmb env basedir fs] loop_body_exists [of fs env basedir cmb]
    by auto
  with Cons show ?case by simp
qed

lemma try_makedirs_no_error:
  assumes "makedirs_error env path = None"
  shows "fst (try_makedirs env fs path) = None"
  using assms by (simp add: try_makedirs_def os_makedirs_def)

lemma loop_body_no_error:
  assumes "\<forall>p. makedirs_error env p = None" "\<forall>p. write_error env p = None"
    and "cmb \<in> set combos"
  shows "fst (loop_body env basedir fs cmb) = None"
proof (cases "combo_fg cmb = combo_bg cmb \<or> path_exists fs (combo_filepath env basedir cmb)")
  case True
  then have "loop_body env basedir fs cmb = (None, fs, [])"
    using loop_body_same_color loop_body_exists by blast
  then show ?thesis by simp
next
  case False
  obtain suite lic chars width height fsize padding background foreground
    where cmb: "cmb = (suite, lic, chars, (width, height, fsize, padding), background, foreground)"
    by (cases cmb) auto
  from genicon_enumerated [of suite lic chars width height fsize padding background foreground env]
    assms(3) cmb
  obtain c where g: "genicon env suite chars fsize padding width height background foreground = Inr c"
    by blast
  let ?path = "combo_path env basedir cmb"
  obtain r1 fs' where mk: "try_makedirs env fs ?path = (r1, fs')"
    by (cases "try_makedirs env fs ?path") auto
  with try_makedirs_no_error [of env ?path fs] assms(1) have r1: "r1 = None" by simp
  show ?thesis
    using False assms(2)
    by (simp add: loop_body_render [where env = env and basedir = basedir and fs = fs, OF _ _ cmb]
        g mk r1 write_to_png_def del: combo_filepath.simps combo_path.simps)
qed

lemma run_combos_no_error:
  assumes "\<forall>p. makedirs_error env p = None" "\<forall>p. write_error env p = None"
    and "set cs \<subseteq> set combos"
  shows "fst (run_combos env basedir fs cs) = None"
  using assms(3)
proof (induction cs arbitrary: fs)
  case Nil
  then show ?case by simp
next
  case (Cons cmb rest)
  then have "fst (loop_body env basedir fs cmb) = None"
    using loop_body_no_error [OF assms(1,2)] by simp
  then obtain fs0 evs0 where lb: "loop_body env basedir fs cmb = (None, fs0, evs0)"
    by (cases "loop_body env basedir fs cmb") auto
  from Cons have "fst (run_combos env basedir fs0 rest) = None" by simp
  then obtain fs2 evs2 where "run_combos env basedir fs0 rest = (None, fs2, evs2)"
    by (cases "run_combos env basedir fs0 rest") auto
  with lb show ?case by simp
qed

lemma main_installed:
  assumes "''CC Icons'' \<in> set (font_families env)"
  shows "fst (main env fs) = fst (run_combos env (the_basedir env) fs combos)"
    "fst (snd (main env fs)) = fst (snd (run_combos env (the_basedir env) fs combos))"
    "snd (snd (main env fs)) =
       Ev_print (''# basedir: '' @ the_basedir env)
         # snd (snd (run_combos env (the_basedir env) fs combos))"
  using assms
  by (cases "run_combos env (the_basedir env) fs combos"; simp add: main_def Let_def)+

lemma main_no_error:
  assumes "''CC Icons'' \<in> set (font_families env)"
    "\<forall>p. makedirs_error env p = None" "\<forall>p. write_error env p = None"
  shows "fst (main env fs) = None"
  using run_combos_no_error [OF assms(2,3), of combos "the_basedir env" fs]
  by (simp add: main_installed [OF assms(1)])

text \<open>The first iteration, when it is not skipped, starts with the call of the renderer.\<close>

lemma run_combos_first_event:
  assumes "combo_fg cmb \<noteq> combo_bg cmb" "\<not> path_exists fs (combo_filepath env basedir cmb)"
  shows "Ev_genicon cmb \<in> set (snd (snd (run_combos env basedir fs (cmb # rest))))"
proof -
  obtain suite lic chars width height fsize padding background foreground
    where cmb: "cmb = (suite, lic, chars, (width, height, fsize, padding), background, foreground)"
    by (cases cmb) auto
  have "Ev_genicon cmb \<in> set (snd (snd (loop_body env basedir fs cmb)))"
    by (simp add: loop_body_render [where env = env and basedir = basedir and fs = fs, OF assms cmb]
        split: sum.splits prod.splits option.splits del: combo_filepath.simps combo_path.simps)
  then show ?thesis
    by (cases "loop_body env basedir fs cmb"; cases "fst (loop_body env basedir fs cmb)";
        cases "run_combos env basedir (fst (snd (loop_body env basedir fs cmb))) rest") auto
qed

lemma main_first_event:
  assumes "''CC Icons'' \<in> set (font_families env)"
    "\<not> path_exists fs (combo_filepath env (the_basedir env) first_combo)"
  shows "Ev_genicon first_combo \<in> set (snd (snd (main env fs)))"
proof -
  obtain rest where c: "combos = first_combo # rest"
    using combos_first by blast
  have "combo_fg first_combo \<noteq> combo_bg first_combo"
    by (simp add: first_combo_def)
  from run_combos_first_event [OF this assms(2), of rest] show ?thesis
    by (simp add: main_installed [OF assms(1)] c)
qed

subsection \<open>The claims about the driver\<close>

text \<open>
  The loops on an empty tree, over the first combination twice: the first iteration
  renders, creates the directory and writes; the second finds the file and skips.
\<close>

lemma run_combos_example:
  "fst (run_combos demo_env ''/r/www/i'' empty_fs [first_combo, first_combo]) = None"
  "snd (snd (run_combos demo_env ''/r/www/i'' empty_fs [first_combo, first_combo])) =
     [Ev_genicon first_combo,
      Ev_makedirs first_combo ''/r/www/i/l/by/transparent/00/00/00'',
      Ev_write first_combo ''/r/www/i/l/by/transparent/00/00/00/88x31.png'']"
  "dirs (fst (snd (run_combos demo_env ''/r/www/i'' empty_fs [first_combo, first_combo]))) =
     {''/r/www/i/l/by/transparent/00/00/00'', ''/r'', ''/r/www'', ''/r/www/i'', ''/r/www/i/l'',
      ''/r/www/i/l/by'', ''/r/www/i/l/by/transparent'', ''/r/www/i/l/by/transparent/00'',
      ''/r/www/i/l/by/transparent/00/00''}"
  by (simp_all add: first_combo_def loop_body_def demo_env_def empty_fs_def path_exists_def
      icon_path_def os_path_join_def join_step_def slice_def icon_filename_def
      filename_suffix_def str_int_def str_nat.simps genicon_def set_background_def
      set_color_def create_context_def configure_font_def emit_def show_chars_def
      size_chars_def hex_to_float_def int16_def hex_digit_def b64_round_def
      try_makedirs_def os_makedirs_def write_to_png_def parent_dirs_def Let_def)

lemma demo_env_fields:
  "''CC Icons'' \<in> set (font_families demo_env)"
  "makedirs_error demo_env = (\<lambda>p. None)" "write_error demo_env = (\<lambda>p. None)"
  "the_basedir demo_env = ''/r/www/i''"
  by (simp_all add: demo_env_def the_basedir_def os_path_join_def join_step_def)

lemma empty_fs_nothing: "\<not> path_exists empty_fs p"
  by (simp add: empty_fs_def path_exists_def)

text \<open>
  Claim C3. A combination whose foreground equals its background makes the loop body
  do nothing at all, and no call of the whole run (rendering, directory creation,
  writing) belongs to such a combination.
\<close>

theorem same_color_skipped:
  assumes "combo_fg cmb = combo_bg cmb"
  shows "loop_body env basedir fs cmb = (None, fs, [])
    \<and> (\<forall>ev\<in>set (snd (snd (main env fs))). event_combo ev \<noteq> Some cmb)"
proof -
  have "event_combo ev \<noteq> Some cmb" if ev: "ev \<in> set (snd (snd (main env fs)))" for ev
  proof (cases "''CC Icons'' \<in> set (font_families env)")
    case False
    with ev show ?thesis by (simp add: main_def)
  next
    case True
    obtain r fs1 evs where rc: "run_combos env (the_basedir env) fs combos = (r, fs1, evs)"
      by (cases "run_combos env (the_basedir env) fs combos") auto
    from ev main_installed(3) [OF True, of fs] rc
    consider "ev = Ev_print (''# basedir: '' @ the_basedir env)" | "ev \<in> set evs"
      by auto
    then show ?thesis
    proof cases
      case 1
      then show ?thesis by simp
    next
      case 2
      with run_combos_effect [OF rc] assms show ?thesis by auto
    qed
  qed
  with loop_body_same_color [OF assms] show ?thesis by blast
qed

theorem same_color_skipped_witness:
  "loop_body demo_env ''/r/www/i'' empty_fs
       (''l'', ''by'', ''b'', (88, 31, 31, 1), ''000000'', ''000000'') = (None, empty_fs, [])
   \<and> Ev_genicon first_combo \<in> set (snd (snd (main demo_env empty_fs)))
   \<and> event_combo (Ev_genicon first_combo)
       \<noteq> Some (''l'', ''by'', ''b'', (88, 31, 31, 1), ''000000'', ''000000'')"
proof -
  let ?same = "(''l'', ''by'', ''b'', (88, 31, 31, 1), ''000000'', ''000000'') :: combo"
  have s: "combo_fg ?same = combo_bg ?same" by simp
  have m: "Ev_genicon first_combo \<in> set (snd (snd (main demo_env empty_fs)))"
    using main_first_event [OF demo_env_fields(1) empty_fs_nothing] .
  from same_color_skipped [OF s, of demo_env "''/r/www/i''" empty_fs] m
  show ?thesis by blast
qed

lemma first_combo_paths:
  "combo_path demo_env ''/r/www/i'' first_combo = ''/r/www/i/l/by/transparent/00/00/00''"
  "combo_filepath demo_env ''/r/www/i'' first_combo
     = ''/r/www/i/l/by/transparent/00/00/00/88x31.png''"
  by (simp_all add: first_combo_def demo_env_def icon_path_def os_path_join_def join_step_def
      slice_def icon_filename_def filename_suffix_def str_int_def str_nat.simps)

text \<open>
  Claim C5. A combination whose output file exists makes the loop body do nothing;
  whatever an iteration or the whole run does and however it ends, every file that
  was there before it is there after it with the same content (so no file is ever
  replaced, be it older than the run or written by it); and after a run that
  completed, a second run completes too, makes no call but the printing of the
  base directory, and leaves the file tree as it found it.
\<close>

theorem generation_idempotent:
  "(path_exists fs (combo_filepath env basedir cmb) \<longrightarrow>
      loop_body env basedir fs cmb = (None, fs, []))
   \<and> (files fs p = Some content \<longrightarrow>
        files (fst (snd (loop_body env basedir fs cmb))) p = Some content
        \<and> files (fst (snd (main env fs))) p = Some content)
   \<and> (main env fs = (None, fs1, evs) \<longrightarrow>
        main env fs1 = (None, fs1, [Ev_print (''# basedir: '' @ the_basedir env)]))"
proof -
  have keep: "files (fst (snd (main env fs))) p = Some content" if f: "files fs p = Some content"
  proof (cases "''CC Icons'' \<in> set (font_families env)")
    case False
    with f show ?thesis by (simp add: main_def)
  next
    case True
    obtain r fs2 evs2 where rc: "run_combos env (the_basedir env) fs combos = (r, fs2, evs2)"
      by (cases "run_combos env (the_basedir env) fs combos") auto
    with run_combos_effect [OF rc] f show ?thesis
      by (simp add: main_installed(2) [OF True])
  qed
  have again: "main env fs1 = (None, fs1, [Ev_print (''# basedir: '' @ the_basedir env)])"
    if m: "main env fs = (None, fs1, evs)"
  proof -
    have font: "''CC Icons'' \<in> set (font_families env)"
      using m by (auto simp: main_def split: if_splits)
    obtain r fs2 evs2 where rc: "run_combos env (the_basedir env) fs combos = (r, fs2, evs2)"
      by (cases "run_combos env (the_basedir env) fs combos") auto
    from m rc main_installed(1,2) [OF font, of fs] have "r = None" "fs2 = fs1"
      by simp_all
    with run_combos_effect [OF rc]
    have "\<forall>cmb\<in>set combos. combo_fg cmb \<noteq> combo_bg cmb \<longrightarrow>
        path_exists fs1 (combo_filepath env (the_basedir env) cmb)"
      by simp
    from run_combos_all_exist [OF this] show ?thesis
      using font by (simp add: main_def)
  qed
  have keep1: "files (fst (snd (loop_body env basedir fs cmb))) p = Some content"
    if f: "files fs p = Some content"
  proof -
    obtain r fs2 evs2 where lb: "loop_body env basedir fs cmb = (r, fs2, evs2)"
      by (cases "loop_body env basedir fs cmb") auto
    with loop_body_effect [OF lb] f show ?thesis by simp
  qed
  from loop_body_exists [of fs env basedir cmb] keep keep1 again show ?thesis by blast
qed

theorem generation_idempotent_witness:
  "loop_body demo_env ''/r/www/i'' seeded_fs first_combo = (None, seeded_fs, [])
   \<and> files (fst (snd (loop_body demo_env ''/r/www/i'' seeded_fs
                       (''l'', ''by'', ''b'', (80, 15, 15, 4), ''transparent'', ''000000''))))
         ''/r/www/i/l/by/transparent/00/00/00/88x31.png'' = Some (create_context 88 31)
   \<and> files (fst (snd (main demo_env seeded_fs)))
         ''/r/www/i/l/by/transparent/00/00/00/88x31.png'' = Some (create_context 88 31)
   \<and> fst (main demo_env empty_fs) = None
   \<and> main demo_env (fst (snd (main demo_env empty_fs)))
       = (None, fst (snd (main demo_env empty_fs)), [Ev_print ''# basedir: /r/www/i''])"
proof -
  have ex: "path_exists seeded_fs (combo_filepath demo_env ''/r/www/i'' first_combo)"
    by (simp add: first_combo_paths seeded_fs_def path_exists_def)
  have f: "files seeded_fs ''/r/www/i/l/by/transparent/00/00/00/88x31.png''
      = Some (create_context 88 31)"
    by (simp add: seeded_fs_def)
  have ok: "fst (main demo_env empty_fs) = None"
    using main_no_error [OF demo_env_fields(1)] by (simp add: demo_env_fields)
  then have m: "main demo_env empty_fs
      = (None, fst (snd (main demo_env empty_fs)), snd (snd (main demo_env empty_fs)))"
    by (cases "main demo_env empty_fs") simp
  from generation_idempotent [of seeded_fs demo_env "''/r/www/i''" first_combo
      "''/r/www/i/l/by/transparent/00/00/00/88x31.png''" "create_context 88 31"] ex f
  have a: "loop_body demo_env ''/r/www/i'' seeded_fs first_combo = (None, seeded_fs, [])"
    and b: "files (fst (snd (main demo_env seeded_fs)))
         ''/r/www/i/l/by/transparent/00/00/00/88x31.png'' = Some (create_context 88 31)"
    by blast+
  from generation_idempotent [of seeded_fs demo_env "''/r/www/i''"
      "(''l'', ''by'', ''b'', (80, 15, 15, 4), ''transparent'', ''000000'')"
      "''/r/www/i/l/by/transparent/00/00/00/88x31.png''" "create_context 88 31"] f
  have b1: "files (fst (snd (loop_body demo_env ''/r/www/i'' seeded_fs
                       (''l'', ''by'', ''b'', (80, 15, 15, 4), ''transparent'', ''000000''))))
         ''/r/www/i/l/by/transparent/00/00/00/88x31.png'' = Some (create_context 88 31)"
    by blast
  from generation_idempotent [of empty_fs demo_env _ _ _ _ "fst (snd (main demo_env empty_fs))"
      "snd (snd (main demo_env empty_fs))"] m
  have c: "main demo_env (fst (snd (main demo_env empty_fs)))
       = (None, fst (snd (main demo_env empty_fs)), [Ev_print ''# basedir: /r/www/i''])"
    by (simp add: demo_env_fields)
  from a b b1 ok c show ?thesis by blast
qed

subsection \<open>Errors of directory creation\<close>

lemma first_combo_enumerated: "first_combo \<in> set combos"
proof -
  obtain rest where "combos = first_combo # rest"
    using combos_first by blast
  then show ?thesis by (metis list.set_intros(1))
qed

lemma paths_makedirs_error:
  "combo_path (env\<lparr>makedirs_error := f\<rparr>) basedir cmb = combo_path env basedir cmb"
  "combo_filepath (env\<lparr>makedirs_error := f\<rparr>) basedir cmb = combo_filepath env basedir cmb"
  by (cases cmb; simp)+

lemma first_combo_genicon:
  "\<exists>c. genicon env ''l'' ''b'' 31 1 88 31 ''transparent'' ''000000'' = Inr c"
  using genicon_enumerated [of "''l''" "''by''" "''b''" 88 31 31 1 "''transparent''" "''000000''" env]
    first_combo_enumerated
  by (simp add: first_combo_def)

text \<open>
  Claim C7. When the loop body has rendered a combination and \<open>os.makedirs\<close> raises
  an \<open>OSError\<close>: if its \<open>errno\<close> is \<open>EEXIST\<close> the body goes on to write the PNG, and
  the loops go on with the next combination after a successful write; with any
  other \<open>errno\<close> the same \<open>OSError\<close> leaves the body without a write, and ends the
  loops, whatever combinations remain.
\<close>

theorem makedirs_error_handling:
  assumes "cmb = (suite, lic, chars, (width, height, fsize, padding), background, foreground)"
    and "foreground \<noteq> background"
    and "\<not> path_exists fs (combo_filepath env basedir cmb)"
    and "genicon env suite chars fsize padding width height background foreground = Inr c"
    and "os_makedirs env fs (combo_path env basedir cmb) = (Some (OSError n), fs1)"
  shows "(n = EEXIST \<longrightarrow>
           loop_body env basedir fs cmb =
             (fst (write_to_png env fs1 c (combo_filepath env basedir cmb)),
              snd (write_to_png env fs1 c (combo_filepath env basedir cmb)),
              [Ev_genicon cmb, Ev_makedirs cmb (combo_path env basedir cmb),
               Ev_write cmb (combo_filepath env basedir cmb)])
           \<and> (write_error env (combo_filepath env basedir cmb) = None \<longrightarrow>
                run_combos env basedir fs (cmb # rest) =
                  (fst (run_combos env basedir
                          (fs1\<lparr>files := (files fs1)(combo_filepath env basedir cmb \<mapsto> c)\<rparr>) rest),
                   fst (snd (run_combos env basedir
                          (fs1\<lparr>files := (files fs1)(combo_filepath env basedir cmb \<mapsto> c)\<rparr>) rest)),
                   [Ev_genicon cmb, Ev_makedirs cmb (combo_path env basedir cmb),
                    Ev_write cmb (combo_filepath env basedir cmb)]
                   @ snd (snd (run_combos env basedir
                          (fs1\<lparr>files := (files fs1)(combo_filepath env basedir cmb \<mapsto> c)\<rparr>) rest)))))
    \<and> (n \<noteq> EEXIST \<longrightarrow>
           loop_body env basedir fs cmb =
             (Some (OSError n), fs1,
              [Ev_genicon cmb, Ev_makedirs cmb (combo_path env basedir cmb)])
           \<and> run_combos env basedir fs (cmb # rest) =
             (Some (OSError n), fs1,
              [Ev_genicon cmb, Ev_makedirs cmb (combo_path env basedir cmb)]))"
proof -
  let ?path = "combo_path env basedir cmb" and ?filepath = "combo_filepath env basedir cmb"
  have ne: "combo_fg cmb \<noteq> combo_bg cmb"
    using assms(1,2) by simp
  note body = loop_body_render [OF ne assms(3) assms(1)]
  have swallow: "try_makedirs env fs ?path = (None, fs1)" if "n = EEXIST"
    using that assms(5) by (simp add: try_makedirs_def)
  have raise: "try_makedirs env fs ?path = (Some (OSError n), fs1)" if "n \<noteq> EEXIST"
    using that assms(5) by (simp add: try_makedirs_def)
  have a: "loop_body env basedir fs cmb =
             (fst (write_to_png env fs1 c ?filepath), snd (write_to_png env fs1 c ?filepath),
              [Ev_genicon cmb, Ev_makedirs cmb ?path, Ev_write cmb ?filepath])" if "n = EEXIST"
    using swallow [OF that] by (simp add: body assms(4) split: prod.splits)
  have b: "run_combos env basedir fs (cmb # rest) =
                  (fst (run_combos env basedir (fs1\<lparr>files := (files fs1)(?filepath \<mapsto> c)\<rparr>) rest),
                   fst (snd (run_combos env basedir (fs1\<lparr>files := (files fs1)(?filepath \<mapsto> c)\<rparr>) rest)),
                   [Ev_genicon cmb, Ev_makedirs cmb ?path, Ev_write cmb ?filepath]
                   @ snd (snd (run_combos env basedir (fs1\<lparr>files := (files fs1)(?filepath \<mapsto> c)\<rparr>) rest)))"
    if "n = EEXIST" "write_error env ?filepath = None"
    using a [OF that(1)] that(2)
    by (simp add: write_to_png_def split: prod.splits)
  have c: "loop_body env basedir fs cmb =
             (Some (OSError n), fs1, [Ev_genicon cmb, Ev_makedirs cmb ?path])" if "n \<noteq> EEXIST"
    using raise [OF that] by (simp add: body assms(4))
  then have d: "run_combos env basedir fs (cmb # rest) =
             (Some (OSError n), fs1, [Ev_genicon cmb, Ev_makedirs cmb ?path])" if "n \<noteq> EEXIST"
    using that by simp
  from a b c d show ?thesis by blast
qed

theorem makedirs_error_handling_witness:
  "os_makedirs demo_env dir_only_fs ''/r/www/i/l/by/transparent/00/00/00''
     = (Some (OSError EEXIST), dir_only_fs)
   \<and> fst (loop_body demo_env ''/r/www/i'' dir_only_fs first_combo) = None
   \<and> snd (snd (loop_body demo_env ''/r/www/i'' dir_only_fs first_combo))
       = [Ev_genicon first_combo,
          Ev_makedirs first_combo ''/r/www/i/l/by/transparent/00/00/00'',
          Ev_write first_combo ''/r/www/i/l/by/transparent/00/00/00/88x31.png'']
   \<and> os_makedirs (demo_env\<lparr>makedirs_error := \<lambda>p. Some (OSError 13)\<rparr>) empty_fs
         ''/r/www/i/l/by/transparent/00/00/00''
     = (Some (OSError 13), empty_fs)
   \<and> run_combos (demo_env\<lparr>makedirs_error := \<lambda>p. Some (OSError 13)\<rparr>) ''/r/www/i'' empty_fs
         [first_combo, (''l'', ''by'', ''b'', (88, 31, 31, 1), ''transparent'', ''000011'')]
     = (Some (OSError 13), empty_fs,
        [Ev_genicon first_combo,
         Ev_makedirs first_combo ''/r/www/i/l/by/transparent/00/00/00''])"
proof -
  let ?ro = "demo_env\<lparr>makedirs_error := \<lambda>p. Some (OSError 13)\<rparr>"
  have fc: "first_combo = (''l'', ''by'', ''b'', (88, 31, 31, 1), ''transparent'', ''000000'')"
    by (simp add: first_combo_def)
  have nb: "''000000'' \<noteq> ''transparent''" by simp
  have paths_ro: "combo_path ?ro ''/r/www/i'' first_combo = ''/r/www/i/l/by/transparent/00/00/00''"
    "combo_filepath ?ro ''/r/www/i'' first_combo
       = ''/r/www/i/l/by/transparent/00/00/00/88x31.png''"
    by (simp_all only: paths_makedirs_error first_combo_paths)
  obtain c where g: "genicon demo_env ''l'' ''b'' 31 1 88 31 ''transparent'' ''000000'' = Inr c"
    using first_combo_genicon by blast
  obtain c' where g': "genicon ?ro ''l'' ''b'' 31 1 88 31 ''transparent'' ''000000'' = Inr c'"
    using first_combo_genicon by blast
  have ne1: "\<not> path_exists dir_only_fs (combo_filepath demo_env ''/r/www/i'' first_combo)"
    by (simp add: first_combo_paths dir_only_fs_def path_exists_def)
  have ne2: "\<not> path_exists empty_fs (combo_filepath ?ro ''/r/www/i'' first_combo)"
    by (rule empty_fs_nothing)
  have mk1: "os_makedirs demo_env dir_only_fs (combo_path demo_env ''/r/www/i'' first_combo)
      = (Some (OSError EEXIST), dir_only_fs)"
    unfolding first_combo_paths
    by (simp add: os_makedirs_def demo_env_def dir_only_fs_def path_exists_def)
  have mk2: "os_makedirs ?ro empty_fs (combo_path ?ro ''/r/www/i'' first_combo)
      = (Some (OSError 13), empty_fs)"
    by (simp add: os_makedirs_def)
  have n13: "(13::int) \<noteq> EEXIST" by (simp add: EEXIST_def)
  from makedirs_error_handling [OF fc nb ne1 g mk1]
  have a: "fst (loop_body demo_env ''/r/www/i'' dir_only_fs first_combo) = None"
    "snd (snd (loop_body demo_env ''/r/www/i'' dir_only_fs first_combo))
       = [Ev_genicon first_combo,
          Ev_makedirs first_combo ''/r/www/i/l/by/transparent/00/00/00'',
          Ev_write first_combo ''/r/www/i/l/by/transparent/00/00/00/88x31.png'']"
    unfolding first_combo_paths by (simp_all add: write_to_png_def demo_env_def)
  from makedirs_error_handling [OF fc nb ne2 g' mk2,
      of "[(''l'', ''by'', ''b'', (88, 31, 31, 1), ''transparent'', ''000011'')]"] n13
  have b: "run_combos ?ro ''/r/www/i'' empty_fs
         [first_combo, (''l'', ''by'', ''b'', (88, 31, 31, 1), ''transparent'', ''000011'')]
     = (Some (OSError 13), empty_fs,
        [Ev_genicon first_combo,
         Ev_makedirs first_combo ''/r/www/i/l/by/transparent/00/00/00''])"
    unfolding paths_ro by blast
  from a b mk1 mk2 show ?thesis
    unfolding paths_ro first_combo_paths by blast
qed

subsection \<open>Exit status\<close>

lemma main_makedirs_raises:
  assumes "''CC Icons'' \<in> set (font_families env)"
    and "\<not> path_exists fs (combo_filepath env (the_basedir env) first_combo)"
    and "makedirs_error env (combo_path env (the_basedir env) first_combo) = Some e"
    and "e \<noteq> OSError EEXIST"
  shows "fst (main env fs) = Some e"
proof -
  obtain rest where c: "combos = first_combo # rest"
    using combos_first by blast
  obtain cx where g: "genicon env ''l'' ''b'' 31 1 88 31 ''transparent'' ''000000'' = Inr cx"
    using first_combo_genicon by blast
  have fc: "first_combo = (''l'', ''by'', ''b'', (88, 31, 31, 1), ''transparent'', ''000000'')"
    by (simp add: first_combo_def)
  have ne: "combo_fg first_combo \<noteq> combo_bg first_combo"
    by (simp add: first_combo_def)
  have mk: "try_makedirs env fs (combo_path env (the_basedir env) first_combo) = (Some e, fs)"
    using assms(3,4) by (cases e) (simp_all add: try_makedirs_def os_makedirs_def)
  have "fst (loop_body env (the_basedir env) fs first_combo) = Some e"
    by (simp add: loop_body_render [OF ne assms(2) fc] g mk)
  then have "fst (run_combos env (the_basedir env) fs (first_combo # rest)) = Some e"
    by (cases "loop_body env (the_basedir env) fs first_combo") simp
  then show ?thesis
    by (simp add: main_installed(1) [OF assms(1)] c)
qed

text \<open>
  Claim C8. The exit status is 0 when \<open>main\<close> returns, 130 when it is left by
  \<open>KeyboardInterrupt\<close>, and 1 when it is left by any other exception that the script
  does not handle itself, that is any exception but \<open>SystemExit\<close> (which the first
  clause turns into an exit with its own code); the traceback of that exception is
  on the error stream. A missing font is such a case: \<open>main\<close> raises an
  \<open>Exception\<close> with the message about the font before it does anything else.
\<close>

theorem exit_status_of_run:
  "(fst (main env fs) = None \<longrightarrow> exit_status (script env fs) = 0)
   \<and> (fst (main env fs) = Some KeyboardInterrupt \<longrightarrow> exit_status (script env fs) = 130)
   \<and> (fst (main env fs) = Some e \<and> e \<noteq> KeyboardInterrupt \<and> (\<forall>code. e \<noteq> SystemExit code) \<longrightarrow>
        exit_status (script env fs) = 1 \<and> Traceback e \<in> set (stderr (script env fs)))
   \<and> (''CC Icons'' \<notin> set (font_families env) \<longrightarrow>
        script env fs =
          \<lparr>exit_status = 1,
           stderr =
             [Line ''ERROR (1) Unhandled exception:'',
              Traceback
                (Exception ''CC Icons font not installed. See <https://wiki.debian.org/Fonts>.''),
              Line ''None''],
           final_fs = fs, calls = []\<rparr>)"
proof -
  obtain r fs1 evs where m: "main env fs = (r, fs1, evs)"
    by (cases "main env fs") auto
  have a: "exit_status (script env fs) = 0" if "fst (main env fs) = None"
    using that m by (simp add: script_def handle_outcome_def)
  have b: "exit_status (script env fs) = 130" if "fst (main env fs) = Some KeyboardInterrupt"
    using that m by (simp add: script_def handle_outcome_def exit_after_def)
  have c: "exit_status (script env fs) = 1 \<and> Traceback e \<in> set (stderr (script env fs))"
    if "fst (main env fs) = Some e" "e \<noteq> KeyboardInterrupt" "\<forall>code. e \<noteq> SystemExit code"
    using that m by (cases e) (simp_all add: script_def handle_outcome_def exit_after_def)
  have d: "script env fs =
          \<lparr>exit_status = 1,
           stderr =
             [Line ''ERROR (1) Unhandled exception:'',
              Traceback
                (Exception ''CC Icons font not installed. See <https://wiki.debian.org/Fonts>.''),
              Line ''None''],
           final_fs = fs, calls = []\<rparr>" if "''CC Icons'' \<notin> set (font_families env)"
    using that by (simp add: script_def main_def handle_outcome_def exit_after_def)
  from a b c d show ?thesis by blast
qed

theorem exit_status_of_run_witness:
  "exit_status (script demo_env empty_fs) = 0
   \<and> exit_status (script (demo_env\<lparr>makedirs_error := \<lambda>p. Some KeyboardInterrupt\<rparr>) empty_fs) = 130
   \<and> exit_status (script (demo_env\<lparr>makedirs_error := \<lambda>p. Some (OSError 13)\<rparr>) empty_fs) = 1
   \<and> Traceback (OSError 13)
       \<in> set (stderr (script (demo_env\<lparr>makedirs_error := \<lambda>p. Some (OSError 13)\<rparr>) empty_fs))
   \<and> exit_status (script (demo_env\<lparr>font_families := [''DejaVu Sans'']\<rparr>) empty_fs) = 1"
proof -
  let ?int = "demo_env\<lparr>makedirs_error := \<lambda>p. Some KeyboardInterrupt\<rparr>"
  let ?ro = "demo_env\<lparr>makedirs_error := \<lambda>p. Some (OSError 13)\<rparr>"
  let ?nofont = "demo_env\<lparr>font_families := [''DejaVu Sans'']\<rparr>"
  have ok: "fst (main demo_env empty_fs) = None"
    using main_no_error [OF demo_env_fields(1)] by (simp add: demo_env_fields)
  have font: "''CC Icons'' \<in> set (font_families ?int)" "''CC Icons'' \<in> set (font_families ?ro)"
    using demo_env_fields(1) by simp_all
  have int: "fst (main ?int empty_fs) = Some KeyboardInterrupt"
    by (rule main_makedirs_raises [OF font(1) empty_fs_nothing]) simp_all
  have ro: "fst (main ?ro empty_fs) = Some (OSError 13)"
    by (rule main_makedirs_raises [OF font(2) empty_fs_nothing]) (simp_all add: EEXIST_def)
  have nf: "''CC Icons'' \<notin> set (font_families ?nofont)"
    by simp
  from exit_status_of_run [of demo_env empty_fs] ok
  have a: "exit_status (script demo_env empty_fs) = 0" by blast
  from exit_status_of_run [of ?int empty_fs] int
  have b: "exit_status (script ?int empty_fs) = 130" by blast
  from exit_status_of_run [of ?ro empty_fs "OSError 13"] ro
  have c: "exit_status (script ?ro empty_fs) = 1
    \<and> Traceback (OSError 13) \<in> set (stderr (script ?ro empty_fs))" by blast
  from exit_status_of_run [of ?nofont empty_fs] nf
  have d: "exit_status (script ?nofont empty_fs) = 1" by simp
  from a b c d show ?thesis by blast
qed

subsection \<open>The empty character sequence\<close>

text \<open>
  Claim C10. \<open>show_chars\<close> on the empty character sequence raises \<open>IndexError\<close>, and
  it raises \<open>IndexError\<close> on no other sequence. Every combination of the enumeration
  has a non-empty character code, and the renderer returns a drawing for it.
\<close>

theorem show_chars_needs_characters:
  "show_chars env c [] foreground padding width height = Inl IndexError
   \<and> (show_chars env c chars foreground padding width height = Inl IndexError \<longleftrightarrow> chars = [])
   \<and> (\<forall>cmb\<in>set combos.
        case cmb of (suite, lic, chars, (width, height, fsize, padding), background, foreground) \<Rightarrow>
          chars \<noteq> []
          \<and> (\<exists>c. genicon env suite chars fsize padding width height background foreground
                  = Inr c))"
proof -
  have "case cmb of (suite, lic, chars, (width, height, fsize, padding), background, foreground) \<Rightarrow>
          chars \<noteq> []
          \<and> (\<exists>c. genicon env suite chars fsize padding width height background foreground
                  = Inr c)" if "cmb \<in> set combos" for cmb
  proof -
    obtain suite lic chars width height fsize padding background foreground
      where cmb: "cmb = (suite, lic, chars, (width, height, fsize, padding), background, foreground)"
      by (cases cmb) auto
    from genicon_enumerated [of suite lic chars width height fsize padding background foreground env]
      that show ?thesis
      unfolding cmb by simp
  qed
  with show_chars_empty show_chars_index_error show ?thesis by blast
qed

theorem show_chars_needs_characters_witness:
  "show_chars demo_env (create_context 88 31) [] ''000000'' 1 88 31 = Inl IndexError
   \<and> first_combo \<in> set combos
   \<and> (\<exists>c. genicon demo_env ''l'' ''b'' 31 1 88 31 ''transparent'' ''000000'' = Inr c)"
proof -
  note t = show_chars_needs_characters [of demo_env "create_context 88 31" "''000000''" 1 88 31 "[]"]
  from t have a: "show_chars demo_env (create_context 88 31) [] ''000000'' 1 88 31 = Inl IndexError"
    by blast
  note t3 = t [THEN conjunct2, THEN conjunct2, THEN bspec, OF first_combo_enumerated]
  from t3 have b: "\<exists>c. genicon demo_env ''l'' ''b'' 31 1 88 31 ''transparent'' ''000000'' = Inr c"
    by (simp add: first_combo_def)
  from a b first_combo_enumerated show ?thesis by blast
qed

subsection \<open>Horizontal centering\<close>

text \<open>
  Claim C1 says that \<open>show_chars\<close> centers the run with, as its width, the sum of the
  measured widths of the characters plus the padding between them. The script
  departs from it: its sum reads position 3 of the extents, the heights (lemma
  \<open>show_chars_nonempty\<close>), where its own comment puts the widths at position 2, the
  position it uses when it advances from one character to the next. On an 88 wide
  canvas, with padding 1 and two glyphs that each measure 10 wide and 20 high, the
  script starts the run at x = 25 and draws it over 25 to 46, while the widths,
  10 and 10, make a run of 21 that the described layout starts at x = 35.
\<close>

theorem show_chars_centers_with_heights:
  "show_chars demo_env (configure_font (create_context 88 31) 31) ''bn'' ''000000'' 1 88 31
     = Inr \<lparr>surface_width = 88, surface_height = 31, font_face = ''CC Icons'', font_size = 31,
            ops = [Select_font_face ''CC Icons'', Set_font_size 31, Set_source_rgb 0 0 0,
                   Move_to 25 26, Show_text ''b'', Move_to 36 26, Show_text ''n'', Stroke]\<rparr>
   \<and> map idx2 (size_chars demo_env (configure_font (create_context 88 31) 31) ''bn'') = [10, 10]
   \<and> spec_run_width (size_chars demo_env (configure_font (create_context 88 31) 31) ''bn'') 1 = 21
   \<and> \<lceil>spec_start_x (size_chars demo_env (configure_font (create_context 88 31) 31) ''bn'') 1 88\<rceil>
       = 35"
  by (simp add: show_chars_def size_chars_def demo_env_def configure_font_def create_context_def
      emit_def set_color_def slice_def hex_to_float_def int16_def hex_digit_def b64_round_def
      spec_run_width_def spec_start_x_def)

end
